theory Spec2Isabelle
  imports Complex_Main "HOL-Library.Word"
begin

section \<open>JavaScript values used by the chat widget\<close>

text \<open>
  A JavaScript string is a sequence of UTF-16 code units. String literals of the source
  that are plain ASCII are written with \<open>js\<close>; the two emoji defaults are given by their
  surrogate pairs.
\<close>

type_synonym code_unit = "16 word"
type_synonym jsstring = "code_unit list"

definition js :: "string \<Rightarrow> jsstring" where
  "js s = map of_char s"

text \<open>
  \<open>String.prototype.trim\<close> removes WhiteSpace and LineTerminator code points from both
  ends: TAB, LF, VT, FF, CR, SP, NBSP, the other members of Unicode category Zs, LS, PS and
  ZWNBSP.
\<close>

definition isWhiteSpace :: "code_unit \<Rightarrow> bool" where
  "isWhiteSpace c = (c \<in> set [0x9, 0xA, 0xB, 0xC, 0xD, 0x20, 0xA0, 0x1680,
     0x2000, 0x2001, 0x2002, 0x2003, 0x2004, 0x2005, 0x2006, 0x2007, 0x2008, 0x2009, 0x200A,
     0x2028, 0x2029, 0x202F, 0x205F, 0x3000, 0xFEFF])"

definition trim :: "jsstring \<Rightarrow> jsstring" where
  "trim s = rev (dropWhile isWhiteSpace (rev (dropWhile isWhiteSpace s)))"

text \<open>
  \<open>Number.prototype.toString\<close> on the integers that \<open>Date.now()\<close> returns (milliseconds
  since the epoch, far below \<open>10^21\<close>): the decimal digits, with a minus sign when negative.
\<close>

fun digits :: "nat \<Rightarrow> jsstring" where
  "digits n = (if n < 10 then [of_nat (48 + n)] else digits (n div 10) @ [of_nat (48 + n mod 10)])"

declare digits.simps [simp del]

definition toString :: "int \<Rightarrow> jsstring" where
  "toString i = (if i < 0 then 0x2D # digits (nat (- i)) else digits (nat i))"

text \<open>
  What \<open>res.json()\<close> resolves with is a parsed JSON value. A number is an IEEE double:
  finite (a rational; both zeros are \<open>Finite 0\<close>) or an infinity after overflow. An object
  keeps its members in source order; \<open>JSON.parse\<close> lets the last duplicate key win.
\<close>

datatype jsnumber = Finite rat | PosInfinity | NegInfinity

datatype json =
    JNull
  | JBool bool
  | JNumber jsnumber
  | JString jsstring
  | JArray "json list"
  | JObject "(jsstring \<times> json) list"

text \<open>\<open>ToBoolean\<close>, as used by \<open>||\<close>.\<close>

fun toBoolean :: "json \<Rightarrow> bool" where
  "toBoolean JNull = False"
| "toBoolean (JBool b) = b"
| "toBoolean (JNumber n) = (n \<noteq> Finite 0)"
| "toBoolean (JString s) = (s \<noteq> [])"
| "toBoolean (JArray xs) = True"
| "toBoolean (JObject kvs) = True"

text \<open>
  Everything the \<open>try\<close> block of \<open>handleSendMessage\<close> can throw: \<open>fetch\<close> rejecting, the
  explicit \<open>throw new Error(`API error: ...`)\<close>, \<open>res.json()\<close> rejecting, the property read
  \<open>data.answer\<close> on \<open>null\<close>, and the host's \<open>onSaveMessage\<close> throwing.
\<close>

datatype thrown =
    NetworkError
  | ApiError nat jsstring
  | BodyError
  | TypeError
  | CallbackError

text \<open>
  The property read \<open>data.answer\<close>: a \<open>TypeError\<close> on \<open>null\<close>; the member of an object
  (\<open>None\<close> is \<open>undefined\<close>); \<open>undefined\<close> on booleans, numbers, strings and arrays, whose
  prototypes have no property of that name.
\<close>

fun data_answer :: "json \<Rightarrow> thrown + json option" where
  "data_answer JNull = Inl TypeError"
| "data_answer (JObject kvs) = Inr (map_of (rev kvs) (js ''answer''))"
| "data_answer (JBool b) = Inr None"
| "data_answer (JNumber n) = Inr None"
| "data_answer (JString s) = Inr None"
| "data_answer (JArray xs) = Inr None"

definition fallbackText :: jsstring where
  "fallbackText = js ''Thank you for your message. How can I assist you further?''"

definition apologyText :: jsstring where
  "apologyText = js ''Sorry, I encountered a temporary issue. Please try again in a moment.''"

text \<open>\<open>data.answer || "Thank you for your message. How can I assist you further?"\<close>\<close>

definition botResponse :: "json option \<Rightarrow> json" where
  "botResponse a =
     (case a of
        None \<Rightarrow> JString fallbackText
      | Some v \<Rightarrow> if toBoolean v then v else JString fallbackText)"


section \<open>Data model\<close>

text \<open>
  The interfaces of \<open>Chatbot.tsx\<close> (the component that owns its messages). Field names
  are prefixed where two interfaces share a name (\<open>id\<close>, \<open>avatar\<close>); an optional field
  is an \<open>option\<close>. A \<open>Date\<close> is its time value, milliseconds since the epoch. The field
  \<open>message\<close> is declared \<open>string\<close>, but the bot's text comes from \<open>data.answer\<close> of
  type \<open>any\<close>, so at run time it holds whatever truthy JSON value the server sent.
\<close>

record user =
  user_id :: jsstring
  user_name :: jsstring
  user_email :: "jsstring option"
  user_avatar :: "jsstring option"

datatype sender = User | Bot

record chat_message =
  msg_id :: jsstring
  msg_type :: sender
  message :: json
  timestamp :: int
  avatar :: "jsstring option"

record messageData =
  question :: jsstring
  answer :: json
  userId :: jsstring

datatype completion = Returns | Throws

text \<open>
  The properties the handlers read. \<open>position\<close>, the colours, \<open>title\<close> and
  \<open>welcomeMessage\<close> only reach the markup. The host's callback either returns or throws.
\<close>

record chatbot_props =
  user :: user
  chatbotId :: jsstring
  apiKey :: jsstring
  onSaveMessage :: "(messageData \<Rightarrow> completion) option"
  initialMessages :: "chat_message list option"
  botAvatar :: "jsstring option"
  userAvatar :: "jsstring option"
  apiEndpoint :: "jsstring option"

text \<open>The destructuring defaults of the component's parameter list.\<close>

definition default_apiEndpoint :: jsstring where
  "default_apiEndpoint = js ''https://chatbotly/api/v1/messages''"

definition the_initialMessages :: "chatbot_props \<Rightarrow> chat_message list" where
  "the_initialMessages p = (case initialMessages p of None \<Rightarrow> [] | Some ms \<Rightarrow> ms)"

definition the_botAvatar :: "chatbot_props \<Rightarrow> jsstring" where
  "the_botAvatar p = (case botAvatar p of None \<Rightarrow> [0xD83E, 0xDD16] | Some a \<Rightarrow> a)"

definition the_userAvatar :: "chatbot_props \<Rightarrow> jsstring" where
  "the_userAvatar p = (case userAvatar p of None \<Rightarrow> [0xD83D, 0xDC64] | Some a \<Rightarrow> a)"

definition the_apiEndpoint :: "chatbot_props \<Rightarrow> jsstring" where
  "the_apiEndpoint p = (case apiEndpoint p of None \<Rightarrow> default_apiEndpoint | Some a \<Rightarrow> a)"

text \<open>\<open>a || b\<close> on an optional string: \<open>undefined\<close> and the empty string are falsy.\<close>

definition or_else :: "jsstring option \<Rightarrow> jsstring \<Rightarrow> jsstring" where
  "or_else a b = (case a of None \<Rightarrow> b | Some s \<Rightarrow> if s = [] then b else s)"

text \<open>
  The interfaces of the second component (\<open>src/unnamed/part_000\<close>), whose conversation
  is owned by the host. Its names carry the suffix \<open>_ext\<close>. Its properties have no
  \<open>onSaveMessage\<close>, \<open>initialMessages\<close> or avatars.
\<close>

record user_ext =
  id_ext :: jsstring
  name_ext :: jsstring
  image_ext :: "jsstring option"

record conversation_entry =
  entry_user :: jsstring
  entry_bot :: json
  entry_time :: int

record chatbot_props_ext =
  user_ext :: user_ext
  chatbotId_ext :: jsstring
  apiKey_ext :: jsstring
  apiEndpoint_ext :: "jsstring option"

definition the_apiEndpoint_ext :: "chatbot_props_ext \<Rightarrow> jsstring" where
  "the_apiEndpoint_ext p = (case apiEndpoint_ext p of None \<Rightarrow> default_apiEndpoint | Some a \<Rightarrow> a)"

subsection \<open>The network call\<close>

text \<open>
  The argument of \<open>fetch\<close>. The body is kept as the object handed to \<open>JSON.stringify\<close>,
  its \<open>timestamp\<close> as the time value that \<open>toISOString\<close> prints.
\<close>

record request_body =
  body_message :: jsstring
  body_userId :: jsstring
  body_timestamp :: int

record request =
  url :: jsstring
  http_method :: jsstring
  headers :: "(jsstring \<times> jsstring) list"
  body :: request_body

definition request_of :: "jsstring \<Rightarrow> jsstring \<Rightarrow> jsstring \<Rightarrow> request_body \<Rightarrow> request" where
  "request_of endpoint botid key b =
     \<lparr>url = endpoint @ js ''?Botid='' @ botid,
      http_method = js ''POST'',
      headers = [(js ''Authorization'', js ''Bearer '' @ key),
                 (js ''Content-Type'', js ''application/json'')],
      body = b\<rparr>"

text \<open>
  How the call settles: \<open>fetch\<close> rejects, or resolves with a response whose \<open>ok\<close> is
  true exactly for a status in 200..299, and whose \<open>json()\<close> rejects or resolves with the
  parsed body. The handler touches no state between its two \<open>await\<close>s, so both are one
  outcome.
\<close>

datatype body_result = Body_rejects | Body json

record response =
  status :: nat
  statusText :: jsstring
  json_result :: body_result

definition ok :: "response \<Rightarrow> bool" where
  "ok res = (200 \<le> status res \<and> status res \<le> 299)"

datatype fetch_outcome = Fetch_rejects | Fetch_resolves response

subsection \<open>Component state and the calls it makes\<close>

text \<open>
  Every call a handler makes on something outside itself is logged in order: \<open>fetch\<close>,
  the host's \<open>onSaveMessage\<close>, the store updates \<open>setMessages\<close> and \<open>setConversation\<close>
  (with the update function passed), \<open>console.error\<close> and \<open>e.preventDefault\<close>.
\<close>

datatype call =
    Fetch request
  | OnSaveMessage messageData
  | SetMessages "chat_message list \<Rightarrow> chat_message list"
  | SetConversation "conversation_entry list \<Rightarrow> conversation_entry list"
  | ConsoleError thrown
  | PreventDefault

text \<open>
  The \<open>useState\<close> cells both components share, the issued calls that have not settled
  (each with the text its closure captured at submit time), and the log. The two
  \<open>useEffect\<close> hooks only scroll and focus; they read the state and write none of it,
  and are left out.

  The handlers of the next two sections are those of a render of the current state: the
  constants \<open>inputMessage\<close>, \<open>isLoading\<close> and \<open>isOpen\<close> they read are the state they
  update. That is the case when React has rendered again after the last update, as it does
  between two clicks or key presses of a user. The section after them drops that
  assumption.
\<close>

record session =
  isOpen :: bool
  inputMessage :: jsstring
  isLoading :: bool
  in_flight :: "jsstring list"
  calls :: "call list"

record chatbot = session +
  messages :: "chat_message list"

text \<open>
  In the second component the conversation lives in the host, which hands over the
  state setter of its own \<open>useState\<close>: \<open>setConversation f\<close> replaces the host's list
  \<open>c\<close> by \<open>f c\<close>.
\<close>

record chatbot_ext = session +
  conversation :: "conversation_entry list"

definition setIsOpen :: "bool \<Rightarrow> 'a session_scheme \<Rightarrow> 'a session_scheme" where
  "setIsOpen b c = c\<lparr>isOpen := b\<rparr>"

definition setInputMessage :: "jsstring \<Rightarrow> 'a session_scheme \<Rightarrow> 'a session_scheme" where
  "setInputMessage s c = c\<lparr>inputMessage := s\<rparr>"

definition setIsLoading :: "bool \<Rightarrow> 'a session_scheme \<Rightarrow> 'a session_scheme" where
  "setIsLoading b c = c\<lparr>isLoading := b\<rparr>"

definition log_call :: "call \<Rightarrow> 'a session_scheme \<Rightarrow> 'a session_scheme" where
  "log_call x c = c\<lparr>calls := calls c @ [x]\<rparr>"

definition setMessages :: "(chat_message list \<Rightarrow> chat_message list) \<Rightarrow> chatbot \<Rightarrow> chatbot" where
  "setMessages f c = log_call (SetMessages f) (c\<lparr>messages := f (messages c)\<rparr>)"

definition setConversation ::
  "(conversation_entry list \<Rightarrow> conversation_entry list) \<Rightarrow> chatbot_ext \<Rightarrow> chatbot_ext" where
  "setConversation f c = log_call (SetConversation f) (c\<lparr>conversation := f (conversation c)\<rparr>)"

text \<open>\<open>fetch\<close> issues the call; it stays in flight, with the closure's text, until it settles.\<close>

definition fetch :: "request \<Rightarrow> jsstring \<Rightarrow> 'a session_scheme \<Rightarrow> 'a session_scheme" where
  "fetch req captured c = log_call (Fetch req) (c\<lparr>in_flight := in_flight c @ [captured]\<rparr>)"

definition console_error :: "thrown \<Rightarrow> 'a session_scheme \<Rightarrow> 'a session_scheme" where
  "console_error e c = log_call (ConsoleError e) c"

definition toggleChat :: "'a session_scheme \<Rightarrow> 'a session_scheme" where
  "toggleChat c = setIsOpen (\<not> isOpen c) c"


section \<open>The component that owns its messages (\<open>Chatbot.tsx\<close>)\<close>

text \<open>
  The clock readings of one run of \<open>handleSendMessage\<close> up to its first \<open>await\<close>
  (\<open>Date.now()\<close> for the id, \<open>new Date()\<close> for the timestamp, \<open>new Date()\<close> for the
  request body), and of its continuation (\<open>Date.now()\<close> and \<open>new Date()\<close> in the
  \<open>try\<close> block, and again in the \<open>catch\<close> block).
\<close>

record submit_clock =
  now_id :: int
  now_timestamp :: int
  now_body :: int

record settle_clock =
  try_now_id :: int
  try_now_timestamp :: int
  catch_now_id :: int
  catch_now_timestamp :: int

definition userMessage :: "chatbot_props \<Rightarrow> submit_clock \<Rightarrow> jsstring \<Rightarrow> chat_message" where
  "userMessage p clk inputMessage0 =
     \<lparr>msg_id = toString (now_id clk),
      msg_type = User,
      message = JString (trim inputMessage0),
      timestamp = now_timestamp clk,
      avatar = Some (or_else (user_avatar (user p)) (the_userAvatar p))\<rparr>"

definition botMessage :: "chatbot_props \<Rightarrow> settle_clock \<Rightarrow> json \<Rightarrow> chat_message" where
  "botMessage p clk response =
     \<lparr>msg_id = toString (try_now_id clk + 1),
      msg_type = Bot,
      message = response,
      timestamp = try_now_timestamp clk,
      avatar = Some (the_botAvatar p)\<rparr>"

definition errorMessage :: "chatbot_props \<Rightarrow> settle_clock \<Rightarrow> chat_message" where
  "errorMessage p clk =
     \<lparr>msg_id = toString (catch_now_id clk + 1),
      msg_type = Bot,
      message = JString apologyText,
      timestamp = catch_now_timestamp clk,
      avatar = Some (the_botAvatar p)\<rparr>"

text \<open>
  \<open>handleSendMessage\<close> from its guard to the first \<open>await\<close>: the guard
  \<open>if (!inputMessage.trim() || isLoading) return\<close>, the optimistic echo, the two resets
  and the \<open>fetch\<close>, whose continuation keeps the \<open>inputMessage\<close> of this render.
\<close>

definition handleSendMessage :: "chatbot_props \<Rightarrow> submit_clock \<Rightarrow> chatbot \<Rightarrow> chatbot" where
  "handleSendMessage p clk c =
     (if trim (inputMessage c) = [] \<or> isLoading c then c
      else
        fetch
          (request_of (the_apiEndpoint p) (chatbotId p) (apiKey p)
             \<lparr>body_message = trim (inputMessage c),
              body_userId = user_id (user p),
              body_timestamp = now_body clk\<rparr>)
          (inputMessage c)
          (setIsLoading True
            (setInputMessage []
              (setMessages (\<lambda>prev. prev @ [userMessage p clk (inputMessage c)]) c))))"

text \<open>
  The rest of the \<open>try\<close> block, once the call has settled: the state it leaves and what
  it threw, if anything. \<open>inputMessage0\<close> is the closure's \<open>inputMessage\<close>.
\<close>

definition try_block ::
  "chatbot_props \<Rightarrow> jsstring \<Rightarrow> fetch_outcome \<Rightarrow> settle_clock \<Rightarrow> chatbot \<Rightarrow> chatbot \<times> thrown option" where
  "try_block p inputMessage0 outcome clk c =
     (case outcome of
        Fetch_rejects \<Rightarrow> (c, Some NetworkError)
      | Fetch_resolves res \<Rightarrow>
          if ok res then
            (case json_result res of
               Body_rejects \<Rightarrow> (c, Some BodyError)
             | Body data \<Rightarrow>
                 (case data_answer data of
                    Inl e \<Rightarrow> (c, Some e)
                  | Inr a \<Rightarrow>
                      let c1 = setMessages (\<lambda>prev. prev @ [botMessage p clk (botResponse a)]) c
                      in (case onSaveMessage p of
                            None \<Rightarrow> (c1, None)
                          | Some callback \<Rightarrow>
                              let d = \<lparr>question = trim inputMessage0,
                                       answer = botResponse a,
                                       userId = user_id (user p)\<rparr>
                              in (log_call (OnSaveMessage d) c1,
                                  case callback d of Returns \<Rightarrow> None | Throws \<Rightarrow> Some CallbackError))))
          else (c, Some (ApiError (status res) (statusText res))))"

definition catch_block :: "chatbot_props \<Rightarrow> settle_clock \<Rightarrow> thrown \<Rightarrow> chatbot \<Rightarrow> chatbot" where
  "catch_block p clk e c =
     setMessages (\<lambda>prev. prev @ [errorMessage p clk]) (console_error e c)"

text \<open>
  The continuation of the \<open>k\<close>-th call in flight: \<open>try\<close>, \<open>catch\<close> when something was
  thrown, \<open>finally\<close>. Nothing settles that is not in flight.
\<close>

definition settle :: "chatbot_props \<Rightarrow> nat \<Rightarrow> fetch_outcome \<Rightarrow> settle_clock \<Rightarrow> chatbot \<Rightarrow> chatbot" where
  "settle p k outcome clk c =
     (if k < length (in_flight c) then
        (case try_block p (in_flight c ! k) outcome clk
                (c\<lparr>in_flight := take k (in_flight c) @ drop (Suc k) (in_flight c)\<rparr>) of
           (c1, None) \<Rightarrow> setIsLoading False c1
         | (c1, Some e) \<Rightarrow> setIsLoading False (catch_block p clk e c1))
      else c)"

record keyboard_event =
  key :: jsstring
  shiftKey :: bool
  ctrlKey :: bool
  altKey :: bool
  metaKey :: bool

definition handleKeyPress ::
  "chatbot_props \<Rightarrow> keyboard_event \<Rightarrow> submit_clock \<Rightarrow> chatbot \<Rightarrow> chatbot" where
  "handleKeyPress p e clk c =
     (if key e = js ''Enter'' \<and> \<not> shiftKey e
      then handleSendMessage p clk (log_call PreventDefault c)
      else c)"

text \<open>
  What can happen to a mounted component: a click on the send button, a key press in the
  input box, typing (\<open>onChange\<close>), a click on the toggle button, the close button or the
  overlay, and the settling of a call in flight. The \<open>disabled\<close> attributes are not
  modelled: every event is accepted in every state.
\<close>

datatype ('s, 't) event =
    Click 's
  | KeyPress keyboard_event 's
  | Change jsstring
  | Toggle
  | Settle nat fetch_outcome 't

fun is_settle :: "('s, 't) event \<Rightarrow> bool" where
  "is_settle (Settle k outcome clk) = True"
| "is_settle (Click clk) = False"
| "is_settle (KeyPress e clk) = False"
| "is_settle (Change s) = False"
| "is_settle Toggle = False"

fun step :: "chatbot_props \<Rightarrow> (submit_clock, settle_clock) event \<Rightarrow> chatbot \<Rightarrow> chatbot" where
  "step p (Click clk) c = handleSendMessage p clk c"
| "step p (KeyPress e clk) c = handleKeyPress p e clk c"
| "step p (Change s) c = setInputMessage s c"
| "step p Toggle c = toggleChat c"
| "step p (Settle k outcome clk) c = settle p k outcome clk c"

definition run :: "chatbot_props \<Rightarrow> (submit_clock, settle_clock) event list \<Rightarrow> chatbot \<Rightarrow> chatbot" where
  "run p es c = foldl (\<lambda>c e. step p e c) c es"

text \<open>The first render: the initial values of the four \<open>useState\<close> cells.\<close>

definition mount :: "chatbot_props \<Rightarrow> chatbot" where
  "mount p =
     \<lparr>isOpen = False, inputMessage = [], isLoading = False, in_flight = [], calls = [],
      messages = the_initialMessages p\<rparr>"

section \<open>The component whose conversation the host owns (\<open>src/unnamed/part_000\<close>)\<close>

text \<open>
  Here the clock is read once before the \<open>await\<close> (the request body) and once after it
  (\<open>time: new Date()\<close>, in the \<open>try\<close> block or in the \<open>catch\<close> block). The closure keeps
  \<open>userMessage\<close>, the trimmed text.
\<close>

definition handleSendMessage_ext :: "chatbot_props_ext \<Rightarrow> int \<Rightarrow> chatbot_ext \<Rightarrow> chatbot_ext" where
  "handleSendMessage_ext p now c =
     (if trim (inputMessage c) = [] \<or> isLoading c then c
      else
        fetch
          (request_of (the_apiEndpoint_ext p) (chatbotId_ext p) (apiKey_ext p)
             \<lparr>body_message = trim (inputMessage c),
              body_userId = id_ext (user_ext p),
              body_timestamp = now\<rparr>)
          (trim (inputMessage c))
          (setIsLoading True (setInputMessage [] c)))"

definition try_block_ext ::
  "jsstring \<Rightarrow> fetch_outcome \<Rightarrow> int \<Rightarrow> chatbot_ext \<Rightarrow> chatbot_ext \<times> thrown option" where
  "try_block_ext userMessage0 outcome now c =
     (case outcome of
        Fetch_rejects \<Rightarrow> (c, Some NetworkError)
      | Fetch_resolves res \<Rightarrow>
          if ok res then
            (case json_result res of
               Body_rejects \<Rightarrow> (c, Some BodyError)
             | Body data \<Rightarrow>
                 (case data_answer data of
                    Inl e \<Rightarrow> (c, Some e)
                  | Inr a \<Rightarrow>
                      (setConversation
                         (\<lambda>prev. prev @ [\<lparr>entry_user = userMessage0,
                                          entry_bot = botResponse a,
                                          entry_time = now\<rparr>]) c,
                       None)))
          else (c, Some (ApiError (status res) (statusText res))))"

definition catch_block_ext :: "jsstring \<Rightarrow> int \<Rightarrow> thrown \<Rightarrow> chatbot_ext \<Rightarrow> chatbot_ext" where
  "catch_block_ext userMessage0 now e c =
     setConversation
       (\<lambda>prev. prev @ [\<lparr>entry_user = userMessage0,
                        entry_bot = JString apologyText,
                        entry_time = now\<rparr>])
       (console_error e c)"

definition settle_ext :: "nat \<Rightarrow> fetch_outcome \<Rightarrow> int \<Rightarrow> chatbot_ext \<Rightarrow> chatbot_ext" where
  "settle_ext k outcome now c =
     (if k < length (in_flight c) then
        (case try_block_ext (in_flight c ! k) outcome now
                (c\<lparr>in_flight := take k (in_flight c) @ drop (Suc k) (in_flight c)\<rparr>) of
           (c1, None) \<Rightarrow> setIsLoading False c1
         | (c1, Some e) \<Rightarrow> setIsLoading False (catch_block_ext (in_flight c ! k) now e c1))
      else c)"

definition handleKeyPress_ext ::
  "chatbot_props_ext \<Rightarrow> keyboard_event \<Rightarrow> int \<Rightarrow> chatbot_ext \<Rightarrow> chatbot_ext" where
  "handleKeyPress_ext p e now c =
     (if key e = js ''Enter'' \<and> \<not> shiftKey e
      then handleSendMessage_ext p now (log_call PreventDefault c)
      else c)"

fun step_ext :: "chatbot_props_ext \<Rightarrow> (int, int) event \<Rightarrow> chatbot_ext \<Rightarrow> chatbot_ext" where
  "step_ext p (Click now) c = handleSendMessage_ext p now c"
| "step_ext p (KeyPress e now) c = handleKeyPress_ext p e now c"
| "step_ext p (Change s) c = setInputMessage s c"
| "step_ext p Toggle c = toggleChat c"
| "step_ext p (Settle k outcome now) c = settle_ext k outcome now c"

definition run_ext :: "chatbot_props_ext \<Rightarrow> (int, int) event list \<Rightarrow> chatbot_ext \<Rightarrow> chatbot_ext" where
  "run_ext p es c = foldl (\<lambda>c e. step_ext p e c) c es"

text \<open>The first render, over the conversation the host passes in.\<close>

definition mount_ext :: "conversation_entry list \<Rightarrow> chatbot_ext" where
  "mount_ext conv =
     \<lparr>isOpen = False, inputMessage = [], isLoading = False, in_flight = [], calls = [],
      conversation = conv\<rparr>"

section \<open>Handlers as closures of a render\<close>

text \<open>
  Every render creates the handlers anew, and \<open>inputMessage\<close>, \<open>isLoading\<close> and \<open>isOpen\<close>
  are constants of that render (the \<open>useState\<close> calls of \<open>Chatbot.tsx\<close> lines 50 to 53,
  of \<open>part_000\<close> lines 41 to 43): a setter changes the state, not what the handlers of an
  earlier render read. Here \<open>r\<close> is the state the handler's render was made of and \<open>c\<close>
  the state when it runs. \<open>setMessages\<close> is called with an update function and so acts on
  \<open>c\<close>; the guard, the text sent and \<open>!isOpen\<close> are read from \<open>r\<close>.
\<close>

definition handleSendMessage_from ::
  "chatbot \<Rightarrow> chatbot_props \<Rightarrow> submit_clock \<Rightarrow> chatbot \<Rightarrow> chatbot" where
  "handleSendMessage_from r p clk c =
     (if trim (inputMessage r) = [] \<or> isLoading r then c
      else
        fetch
          (request_of (the_apiEndpoint p) (chatbotId p) (apiKey p)
             \<lparr>body_message = trim (inputMessage r),
              body_userId = user_id (user p),
              body_timestamp = now_body clk\<rparr>)
          (inputMessage r)
          (setIsLoading True
            (setInputMessage []
              (setMessages (\<lambda>prev. prev @ [userMessage p clk (inputMessage r)]) c))))"

definition handleKeyPress_from ::
  "chatbot \<Rightarrow> chatbot_props \<Rightarrow> keyboard_event \<Rightarrow> submit_clock \<Rightarrow> chatbot \<Rightarrow> chatbot" where
  "handleKeyPress_from r p e clk c =
     (if key e = js ''Enter'' \<and> \<not> shiftKey e
      then handleSendMessage_from r p clk (log_call PreventDefault c)
      else c)"

text \<open>
  The continuation of a call reads nothing of a render but what it captured at submit
  time, so a call settles as before.
\<close>

fun step_from ::
  "chatbot \<Rightarrow> chatbot_props \<Rightarrow> (submit_clock, settle_clock) event \<Rightarrow> chatbot \<Rightarrow> chatbot" where
  "step_from r p (Click clk) c = handleSendMessage_from r p clk c"
| "step_from r p (KeyPress e clk) c = handleKeyPress_from r p e clk c"
| "step_from r p (Change s) c = setInputMessage s c"
| "step_from r p Toggle c = setIsOpen (\<not> isOpen r) c"
| "step_from r p (Settle k outcome clk) c = settle p k outcome clk c"

definition handleSendMessage_ext_from ::
  "chatbot_ext \<Rightarrow> chatbot_props_ext \<Rightarrow> int \<Rightarrow> chatbot_ext \<Rightarrow> chatbot_ext" where
  "handleSendMessage_ext_from r p now c =
     (if trim (inputMessage r) = [] \<or> isLoading r then c
      else
        fetch
          (request_of (the_apiEndpoint_ext p) (chatbotId_ext p) (apiKey_ext p)
             \<lparr>body_message = trim (inputMessage r),
              body_userId = id_ext (user_ext p),
              body_timestamp = now\<rparr>)
          (trim (inputMessage r))
          (setIsLoading True (setInputMessage [] c)))"

definition handleKeyPress_ext_from ::
  "chatbot_ext \<Rightarrow> chatbot_props_ext \<Rightarrow> keyboard_event \<Rightarrow> int \<Rightarrow> chatbot_ext \<Rightarrow> chatbot_ext" where
  "handleKeyPress_ext_from r p e now c =
     (if key e = js ''Enter'' \<and> \<not> shiftKey e
      then handleSendMessage_ext_from r p now (log_call PreventDefault c)
      else c)"

fun step_ext_from ::
  "chatbot_ext \<Rightarrow> chatbot_props_ext \<Rightarrow> (int, int) event \<Rightarrow> chatbot_ext \<Rightarrow> chatbot_ext" where
  "step_ext_from r p (Click now) c = handleSendMessage_ext_from r p now c"
| "step_ext_from r p (KeyPress e now) c = handleKeyPress_ext_from r p e now c"
| "step_ext_from r p (Change s) c = setInputMessage s c"
| "step_ext_from r p Toggle c = setIsOpen (\<not> isOpen r) c"
| "step_ext_from r p (Settle k outcome now) c = settle_ext k outcome now c"

text \<open>
  A mounted component is the state its handlers on screen were rendered from, and its
  current state. Either React renders again, or an event is dispatched to the handlers on
  screen. Nothing forces a render between two events: two clicks dispatched from one
  script run, before React has committed the updates of the first, reach the same handler.
\<close>

datatype ('s, 't) occurrence = Rerender | Dispatch "('s, 't) event"

fun run_from ::
  "chatbot_props \<Rightarrow> (submit_clock, settle_clock) occurrence list \<Rightarrow> chatbot \<times> chatbot
     \<Rightarrow> chatbot \<times> chatbot" where
  "run_from p [] (r, c) = (r, c)"
| "run_from p (Rerender # xs) (r, c) = run_from p xs (c, c)"
| "run_from p (Dispatch e # xs) (r, c) = run_from p xs (r, step_from r p e c)"

fun run_ext_from ::
  "chatbot_props_ext \<Rightarrow> (int, int) occurrence list \<Rightarrow> chatbot_ext \<times> chatbot_ext
     \<Rightarrow> chatbot_ext \<times> chatbot_ext" where
  "run_ext_from p [] (r, c) = (r, c)"
| "run_ext_from p (Rerender # xs) (r, c) = run_ext_from p xs (c, c)"
| "run_ext_from p (Dispatch e # xs) (r, c) = run_ext_from p xs (r, step_ext_from r p e c)"



section \<open>Notions used in the statements\<close>

text \<open>
  The pending flag agrees with the calls in flight, of which there is at most one. This is
  the invariant behind the guard of \<open>handleSendMessage\<close>.
\<close>

definition guarded :: "'a session_scheme \<Rightarrow> bool" where
  "guarded c = (isLoading c = (in_flight c \<noteq> []) \<and> length (in_flight c) \<le> 1)"

text \<open>Selecting the network calls and the save notifications from the log.\<close>

fun is_fetch :: "call \<Rightarrow> bool" where
  "is_fetch (Fetch r) = True"
| "is_fetch (OnSaveMessage d) = False"
| "is_fetch (SetMessages f) = False"
| "is_fetch (SetConversation f) = False"
| "is_fetch (ConsoleError e) = False"
| "is_fetch PreventDefault = False"

fun is_save :: "call \<Rightarrow> bool" where
  "is_save (OnSaveMessage d) = True"
| "is_save (Fetch r) = False"
| "is_save (SetMessages f) = False"
| "is_save (SetConversation f) = False"
| "is_save (ConsoleError e) = False"
| "is_save PreventDefault = False"

text \<open>
  What the \<open>try\<close> block throws before it has a reply, read off \<open>try_block\<close>: the exchange
  reaches the reply exactly when this is \<open>None\<close>.
\<close>

fun early_throw :: "fetch_outcome \<Rightarrow> thrown option" where
  "early_throw Fetch_rejects = Some NetworkError"
| "early_throw (Fetch_resolves res) =
     (if ok res then
        (case json_result res of
           Body_rejects \<Rightarrow> Some BodyError
         | Body data \<Rightarrow> (case data_answer data of Inl e \<Rightarrow> Some e | Inr a \<Rightarrow> None))
      else Some (ApiError (status res) (statusText res)))"

text \<open>The argument \<open>onSaveMessage\<close> is called with.\<close>

definition saved :: "chatbot_props \<Rightarrow> jsstring \<Rightarrow> json option \<Rightarrow> messageData" where
  "saved p inputMessage0 a =
     \<lparr>question = trim inputMessage0, answer = botResponse a, userId = user_id (user p)\<rparr>"

text \<open>Whether the host's callback, if there is one, throws on this argument.\<close>

definition callback_throws :: "chatbot_props \<Rightarrow> messageData \<Rightarrow> bool" where
  "callback_throws p d = (case onSaveMessage p of None \<Rightarrow> False | Some callback \<Rightarrow> callback d = Throws)"

text \<open>
  The entries handed to the store, in call order: each logged update function is of the
  form \<open>prev => [...prev, x]\<close>, so applying it to the empty list yields \<open>[x]\<close>.
\<close>

fun appended :: "call list \<Rightarrow> chat_message list" where
  "appended [] = []"
| "appended (SetMessages f # xs) = f [] @ appended xs"
| "appended (x # xs) = appended xs"

fun appended_ext :: "call list \<Rightarrow> conversation_entry list" where
  "appended_ext [] = []"
| "appended_ext (SetConversation f # xs) = f [] @ appended_ext xs"
| "appended_ext (x # xs) = appended_ext xs"

text \<open>
  A later state extends an earlier one: the log has grown, the store has grown by the
  entries of the new store updates, and each of these appends one entry.
\<close>

definition extends :: "chatbot \<Rightarrow> chatbot \<Rightarrow> bool" where
  "extends c c' =
     (\<exists>new. calls c' = calls c @ new \<and> messages c' = messages c @ appended new
        \<and> (\<forall>f. SetMessages f \<in> set new \<longrightarrow> (\<exists>m. f = (\<lambda>prev. prev @ [m]))))"

definition extends_ext :: "chatbot_ext \<Rightarrow> chatbot_ext \<Rightarrow> bool" where
  "extends_ext c c' =
     (\<exists>new. calls c' = calls c @ new \<and> conversation c' = conversation c @ appended_ext new
        \<and> (\<forall>f. SetConversation f \<in> set new \<longrightarrow> (\<exists>m. f = (\<lambda>prev. prev @ [m]))))"

text \<open>The calls a component makes on its host's properties.\<close>

fun to_host :: "call \<Rightarrow> bool" where
  "to_host (OnSaveMessage d) = True"
| "to_host (SetConversation f) = True"
| "to_host (Fetch r) = False"
| "to_host (SetMessages f) = False"
| "to_host (ConsoleError e) = False"
| "to_host PreventDefault = False"

section \<open>A sample session\<close>

text \<open>
  User \<open>u1\<close> types \<open>hello\<close> and submits; the states before and after the submit, in both
  components, and some responses of the server.
\<close>

definition example_user :: user where
  "example_user = \<lparr>user_id = js ''u1'', user_name = js ''Ada'', user_email = None, user_avatar = None\<rparr>"

definition example_props :: chatbot_props where
  "example_props =
     \<lparr>user = example_user, chatbotId = js ''bot7'', apiKey = js ''secret'',
      onSaveMessage = Some (\<lambda>d. Returns), initialMessages = None, botAvatar = None,
      userAvatar = None, apiEndpoint = None\<rparr>"

definition example_props_ext :: chatbot_props_ext where
  "example_props_ext =
     \<lparr>user_ext = \<lparr>id_ext = js ''u1'', name_ext = js ''Ada'', image_ext = None\<rparr>,
      chatbotId_ext = js ''bot7'', apiKey_ext = js ''secret'', apiEndpoint_ext = None\<rparr>"

definition example_submit_clock :: submit_clock where
  "example_submit_clock = \<lparr>now_id = 1000, now_timestamp = 1000, now_body = 1001\<rparr>"

definition example_settle_clock :: settle_clock where
  "example_settle_clock =
     \<lparr>try_now_id = 2000, try_now_timestamp = 2001, catch_now_id = 2002, catch_now_timestamp = 2003\<rparr>"

definition composing :: chatbot where
  "composing = setInputMessage (js ''hello'') (mount example_props)"

definition composing_ext :: chatbot_ext where
  "composing_ext = setInputMessage (js ''hello'') (mount_ext [])"

definition pending :: chatbot where
  "pending = handleSendMessage example_props example_submit_clock composing"

definition pending_ext :: chatbot_ext where
  "pending_ext = handleSendMessage_ext example_props_ext 1001 composing_ext"

definition hi_response :: response where
  "hi_response =
     \<lparr>status = 200, statusText = js ''OK'',
      json_result = Body (JObject [(js ''answer'', JString (js ''X''))])\<rparr>"

definition empty_response :: response where
  "empty_response = \<lparr>status = 200, statusText = js ''OK'', json_result = Body (JObject [])\<rparr>"

definition null_response :: response where
  "null_response = \<lparr>status = 200, statusText = js ''OK'', json_result = Body JNull\<rparr>"

definition error_response :: response where
  "error_response = \<lparr>status = 500, statusText = js ''Internal Server Error'', json_result = Body_rejects\<rparr>"

definition ctrl_enter :: keyboard_event where
  "ctrl_enter = \<lparr>key = js ''Enter'', shiftKey = False, ctrlKey = True, altKey = False, metaKey = False\<rparr>"


text \<open>A second click, and a host whose save callback throws.\<close>

definition second_submit_clock :: submit_clock where
  "second_submit_clock = \<lparr>now_id = 1002, now_timestamp = 1002, now_body = 1003\<rparr>"




section \<open>Lemmas\<close>

subsection \<open>The guard invariant\<close>

lemmas prim_defs = setIsOpen_def setInputMessage_def setIsLoading_def log_call_def
  setMessages_def setConversation_def fetch_def console_error_def toggleChat_def

lemma try_block_session:
  "in_flight (fst (try_block p t outcome clk c)) = in_flight c"
  "isLoading (fst (try_block p t outcome clk c)) = isLoading c"
  "inputMessage (fst (try_block p t outcome clk c)) = inputMessage c"
  "isOpen (fst (try_block p t outcome clk c)) = isOpen c"
  by (simp_all add: try_block_def prim_defs Let_def
      split: fetch_outcome.splits body_result.splits sum.splits option.splits completion.splits)

lemma try_block_ext_session:
  "in_flight (fst (try_block_ext t outcome now c)) = in_flight c"
  "isLoading (fst (try_block_ext t outcome now c)) = isLoading c"
  "inputMessage (fst (try_block_ext t outcome now c)) = inputMessage c"
  "isOpen (fst (try_block_ext t outcome now c)) = isOpen c"
  by (simp_all add: try_block_ext_def prim_defs
      split: fetch_outcome.splits body_result.splits sum.splits)

lemma settle_in_flight:
  "in_flight (settle p k outcome clk c) =
     (if k < length (in_flight c) then take k (in_flight c) @ drop (Suc k) (in_flight c)
      else in_flight c)"
proof (cases "k < length (in_flight c)")
  case False
  then show ?thesis by (simp add: settle_def)
next
  case True
  let ?c0 = "c\<lparr>in_flight := take k (in_flight c) @ drop (Suc k) (in_flight c)\<rparr>"
  obtain c1 r where tb: "try_block p (in_flight c ! k) outcome clk ?c0 = (c1, r)"
    by (cases "try_block p (in_flight c ! k) outcome clk ?c0")
  have "in_flight c1 = in_flight ?c0"
    using try_block_session(1) [of p "in_flight c ! k" outcome clk ?c0] tb by simp
  with True tb show ?thesis
    by (cases r) (simp_all add: settle_def catch_block_def prim_defs)
qed

lemma settle_isLoading:
  "isLoading (settle p k outcome clk c) = (if k < length (in_flight c) then False else isLoading c)"
  by (cases "try_block p (in_flight c ! k) outcome clk
        (c\<lparr>in_flight := take k (in_flight c) @ drop (Suc k) (in_flight c)\<rparr>)")
     (simp add: settle_def catch_block_def prim_defs split: option.splits)

lemma settle_ext_in_flight:
  "in_flight (settle_ext k outcome now c) =
     (if k < length (in_flight c) then take k (in_flight c) @ drop (Suc k) (in_flight c)
      else in_flight c)"
proof (cases "k < length (in_flight c)")
  case False
  then show ?thesis by (simp add: settle_ext_def)
next
  case True
  let ?c0 = "c\<lparr>in_flight := take k (in_flight c) @ drop (Suc k) (in_flight c)\<rparr>"
  obtain c1 r where tb: "try_block_ext (in_flight c ! k) outcome now ?c0 = (c1, r)"
    by (cases "try_block_ext (in_flight c ! k) outcome now ?c0")
  have "in_flight c1 = in_flight ?c0"
    using try_block_ext_session(1) [of "in_flight c ! k" outcome now ?c0] tb by simp
  with True tb show ?thesis
    by (cases r) (simp_all add: settle_ext_def catch_block_ext_def prim_defs)
qed

lemma settle_ext_isLoading:
  "isLoading (settle_ext k outcome now c) = (if k < length (in_flight c) then False else isLoading c)"
  by (cases "try_block_ext (in_flight c ! k) outcome now
        (c\<lparr>in_flight := take k (in_flight c) @ drop (Suc k) (in_flight c)\<rparr>)")
     (simp add: settle_ext_def catch_block_ext_def prim_defs split: option.splits)

lemma handleSendMessage_guarded: "guarded c \<Longrightarrow> guarded (handleSendMessage p clk c)"
  by (auto simp: guarded_def handleSendMessage_def prim_defs)

lemma handleSendMessage_ext_guarded: "guarded c \<Longrightarrow> guarded (handleSendMessage_ext p now c)"
  by (auto simp: guarded_def handleSendMessage_ext_def prim_defs)

lemma log_call_guarded: "guarded (log_call x c) = guarded c"
  by (simp add: guarded_def log_call_def)

lemma step_guarded: "guarded c \<Longrightarrow> guarded (step p e c)"
proof (cases e)
  case (Click clk)
  assume "guarded c"
  with Click show ?thesis by (simp add: handleSendMessage_guarded)
next
  case (KeyPress ev clk)
  assume "guarded c"
  with KeyPress show ?thesis
    by (simp add: handleKeyPress_def handleSendMessage_guarded log_call_guarded)
next
  case (Change s)
  assume "guarded c"
  with Change show ?thesis by (simp add: guarded_def setInputMessage_def)
next
  case Toggle
  assume "guarded c"
  with Toggle show ?thesis by (simp add: guarded_def toggleChat_def setIsOpen_def)
next
  case (Settle k outcome clk)
  assume "guarded c"
  then have "length (in_flight c) \<le> 1" and "isLoading c = (in_flight c \<noteq> [])"
    by (simp_all add: guarded_def)
  with Settle show ?thesis
    by (cases "in_flight c") (auto simp: guarded_def settle_in_flight settle_isLoading)
qed

lemma step_ext_guarded: "guarded c \<Longrightarrow> guarded (step_ext p e c)"
proof (cases e)
  case (Click clk)
  assume "guarded c"
  with Click show ?thesis by (simp add: handleSendMessage_ext_guarded)
next
  case (KeyPress ev clk)
  assume "guarded c"
  with KeyPress show ?thesis
    by (simp add: handleKeyPress_ext_def handleSendMessage_ext_guarded log_call_guarded)
next
  case (Change s)
  assume "guarded c"
  with Change show ?thesis by (simp add: guarded_def setInputMessage_def)
next
  case Toggle
  assume "guarded c"
  with Toggle show ?thesis by (simp add: guarded_def toggleChat_def setIsOpen_def)
next
  case (Settle k outcome clk)
  assume "guarded c"
  then have "length (in_flight c) \<le> 1" and "isLoading c = (in_flight c \<noteq> [])"
    by (simp_all add: guarded_def)
  with Settle show ?thesis
    by (cases "in_flight c") (auto simp: guarded_def settle_ext_in_flight settle_ext_isLoading)
qed

lemma run_snoc: "run p (es @ [e]) c = step p e (run p es c)"
  by (simp add: run_def)

lemma run_ext_snoc: "run_ext p (es @ [e]) c = step_ext p e (run_ext p es c)"
  by (simp add: run_ext_def)

lemma run_guarded: "guarded c \<Longrightarrow> guarded (run p es c)"
  by (induction es rule: rev_induct) (simp_all add: run_def step_guarded)

lemma run_ext_guarded: "guarded c \<Longrightarrow> guarded (run_ext p es c)"
  by (induction es rule: rev_induct) (simp_all add: run_ext_def step_ext_guarded)

lemma mount_guarded: "guarded (mount p)" "guarded (mount_ext conv)"
  by (simp_all add: guarded_def mount_def mount_ext_def)

subsection \<open>The sample session\<close>

lemma trim_hello: "trim (js ''hello'') = js ''hello''"
  by (simp add: trim_def js_def isWhiteSpace_def)


lemma js_hello_nonempty: "js ''hello'' \<noteq> []"
  by (simp add: js_def)

lemma texts_differ: "apologyText \<noteq> fallbackText"
  by (simp add: fallbackText_def apologyText_def js_def)

lemma composing_fields:
  "inputMessage composing = js ''hello''" "isLoading composing = False"
  "in_flight composing = []" "calls composing = []" "messages composing = []"
  "isOpen composing = False"
  by (simp_all add: composing_def mount_def setInputMessage_def the_initialMessages_def example_props_def)

lemma composing_ext_fields:
  "inputMessage composing_ext = js ''hello''" "isLoading composing_ext = False"
  "in_flight composing_ext = []" "calls composing_ext = []" "conversation composing_ext = []"
  "isOpen composing_ext = False"
  by (simp_all add: composing_ext_def mount_ext_def setInputMessage_def)

subsection \<open>Submit\<close>

lemma handleSendMessage_blocked:
  "trim (inputMessage c) = [] \<or> isLoading c \<Longrightarrow> handleSendMessage p clk c = c"
  by (simp add: handleSendMessage_def)

lemma handleSendMessage_ext_blocked:
  "trim (inputMessage c) = [] \<or> isLoading c \<Longrightarrow> handleSendMessage_ext p now c = c"
  by (simp add: handleSendMessage_ext_def)

lemma handleSendMessage_sends:
  assumes "trim (inputMessage c) \<noteq> []" and "\<not> isLoading c"
  shows "messages (handleSendMessage p clk c) = messages c @ [userMessage p clk (inputMessage c)]"
    and "in_flight (handleSendMessage p clk c) = in_flight c @ [inputMessage c]"
    and "isLoading (handleSendMessage p clk c)"
    and "inputMessage (handleSendMessage p clk c) = []"
    and "isOpen (handleSendMessage p clk c) = isOpen c"
    and "calls (handleSendMessage p clk c) =
           calls c @ [SetMessages (\<lambda>prev. prev @ [userMessage p clk (inputMessage c)]),
                      Fetch (request_of (the_apiEndpoint p) (chatbotId p) (apiKey p)
                        \<lparr>body_message = trim (inputMessage c), body_userId = user_id (user p),
                         body_timestamp = now_body clk\<rparr>)]"
  using assms by (simp_all add: handleSendMessage_def prim_defs)

lemma handleSendMessage_ext_sends:
  assumes "trim (inputMessage c) \<noteq> []" and "\<not> isLoading c"
  shows "conversation (handleSendMessage_ext p now c) = conversation c"
    and "in_flight (handleSendMessage_ext p now c) = in_flight c @ [trim (inputMessage c)]"
    and "isLoading (handleSendMessage_ext p now c)"
    and "inputMessage (handleSendMessage_ext p now c) = []"
    and "isOpen (handleSendMessage_ext p now c) = isOpen c"
    and "calls (handleSendMessage_ext p now c) =
           calls c @ [Fetch (request_of (the_apiEndpoint_ext p) (chatbotId_ext p) (apiKey_ext p)
                        \<lparr>body_message = trim (inputMessage c), body_userId = id_ext (user_ext p),
                         body_timestamp = now\<rparr>)]"
  using assms by (simp_all add: handleSendMessage_ext_def prim_defs)

subsection \<open>While a call is in flight\<close>

lemma step_while_loading:
  assumes "isLoading c" and "\<not> is_settle e"
  shows "isLoading (step p e c)" and "in_flight (step p e c) = in_flight c"
    and "messages (step p e c) = messages c"
    and "filter is_save (calls (step p e c)) = filter is_save (calls c)"
    and "filter is_fetch (calls (step p e c)) = filter is_fetch (calls c)"
  using assms
  by (cases e; simp add: handleSendMessage_def handleKeyPress_def prim_defs)+

lemma step_ext_while_loading:
  assumes "isLoading c" and "\<not> is_settle e"
  shows "isLoading (step_ext p e c)" and "in_flight (step_ext p e c) = in_flight c"
    and "conversation (step_ext p e c) = conversation c"
    and "filter is_save (calls (step_ext p e c)) = filter is_save (calls c)"
    and "filter is_fetch (calls (step_ext p e c)) = filter is_fetch (calls c)"
  using assms
  by (cases e; simp add: handleSendMessage_ext_def handleKeyPress_ext_def prim_defs)+

lemma run_while_loading:
  assumes "\<forall>e\<in>set es. \<not> is_settle e" and "isLoading c"
  shows "isLoading (run p es c) \<and> in_flight (run p es c) = in_flight c
    \<and> messages (run p es c) = messages c
    \<and> filter is_save (calls (run p es c)) = filter is_save (calls c)
    \<and> filter is_fetch (calls (run p es c)) = filter is_fetch (calls c)"
  using assms
proof (induction es rule: rev_induct)
  case Nil
  then show ?case by (simp add: run_def)
next
  case (snoc e es)
  then have ih: "isLoading (run p es c)" "in_flight (run p es c) = in_flight c"
    "messages (run p es c) = messages c"
    "filter is_save (calls (run p es c)) = filter is_save (calls c)"
    "filter is_fetch (calls (run p es c)) = filter is_fetch (calls c)"
    and e: "\<not> is_settle e"
    by simp_all
  show ?case
    using step_while_loading [OF ih(1) e, of p] ih by (simp add: run_snoc)
qed

lemma run_ext_while_loading:
  assumes "\<forall>e\<in>set es. \<not> is_settle e" and "isLoading c"
  shows "isLoading (run_ext p es c) \<and> in_flight (run_ext p es c) = in_flight c
    \<and> conversation (run_ext p es c) = conversation c
    \<and> filter is_save (calls (run_ext p es c)) = filter is_save (calls c)
    \<and> filter is_fetch (calls (run_ext p es c)) = filter is_fetch (calls c)"
  using assms
proof (induction es rule: rev_induct)
  case Nil
  then show ?case by (simp add: run_ext_def)
next
  case (snoc e es)
  then have ih: "isLoading (run_ext p es c)" "in_flight (run_ext p es c) = in_flight c"
    "conversation (run_ext p es c) = conversation c"
    "filter is_save (calls (run_ext p es c)) = filter is_save (calls c)"
    "filter is_fetch (calls (run_ext p es c)) = filter is_fetch (calls c)"
    and e: "\<not> is_settle e"
    by simp_all
  show ?case
    using step_ext_while_loading [OF ih(1) e, of p] ih by (simp add: run_ext_snoc)
qed

subsection \<open>Settling\<close>

lemma early_throw_None:
  "early_throw outcome = None \<longleftrightarrow>
     (\<exists>res data a. outcome = Fetch_resolves res \<and> ok res \<and> json_result res = Body data
        \<and> data_answer data = Inr a)"
  by (cases outcome) (auto split: body_result.splits sum.splits)

lemma settle_early_throw:
  assumes "k < length (in_flight c)" and "early_throw outcome = Some e"
  shows "settle p k outcome clk c =
     c\<lparr>isLoading := False,
       in_flight := take k (in_flight c) @ drop (Suc k) (in_flight c),
       calls := calls c @ [ConsoleError e, SetMessages (\<lambda>prev. prev @ [errorMessage p clk])],
       messages := messages c @ [errorMessage p clk]\<rparr>"
  using assms
  by (cases outcome)
     (auto simp: settle_def try_block_def catch_block_def prim_defs
        split: body_result.splits sum.splits if_splits)

lemma settle_ext_early_throw:
  assumes "k < length (in_flight c)" and "early_throw outcome = Some e"
  shows "settle_ext k outcome now c =
     c\<lparr>isLoading := False,
       in_flight := take k (in_flight c) @ drop (Suc k) (in_flight c),
       calls := calls c @ [ConsoleError e,
          SetConversation (\<lambda>prev. prev @ [\<lparr>entry_user = in_flight c ! k,
             entry_bot = JString apologyText, entry_time = now\<rparr>])],
       conversation := conversation c @ [\<lparr>entry_user = in_flight c ! k,
             entry_bot = JString apologyText, entry_time = now\<rparr>]\<rparr>"
  using assms
  by (cases outcome)
     (auto simp: settle_ext_def try_block_ext_def catch_block_ext_def prim_defs
        split: body_result.splits sum.splits if_splits)

lemma settle_reply:
  assumes "k < length (in_flight c)" and "ok res" and "json_result res = Body data"
    and "data_answer data = Inr a"
  shows "settle p k (Fetch_resolves res) clk c =
     c\<lparr>isLoading := False,
       in_flight := take k (in_flight c) @ drop (Suc k) (in_flight c),
       calls := calls c @ SetMessages (\<lambda>prev. prev @ [botMessage p clk (botResponse a)]) #
         (case onSaveMessage p of
            None \<Rightarrow> []
          | Some callback \<Rightarrow> OnSaveMessage (saved p (in_flight c ! k) a) #
              (case callback (saved p (in_flight c ! k) a) of
                 Returns \<Rightarrow> []
               | Throws \<Rightarrow> [ConsoleError CallbackError,
                   SetMessages (\<lambda>prev. prev @ [errorMessage p clk])])),
       messages := messages c @ botMessage p clk (botResponse a) #
         (case onSaveMessage p of
            None \<Rightarrow> []
          | Some callback \<Rightarrow>
              (case callback (saved p (in_flight c ! k) a) of
                 Returns \<Rightarrow> []
               | Throws \<Rightarrow> [errorMessage p clk]))\<rparr>"
  using assms
  by (auto simp: settle_def try_block_def catch_block_def prim_defs saved_def Let_def
        split: option.splits completion.splits)

lemma settle_ext_reply:
  assumes "k < length (in_flight c)" and "ok res" and "json_result res = Body data"
    and "data_answer data = Inr a"
  shows "settle_ext k (Fetch_resolves res) now c =
     c\<lparr>isLoading := False,
       in_flight := take k (in_flight c) @ drop (Suc k) (in_flight c),
       calls := calls c @ [SetConversation (\<lambda>prev. prev @ [\<lparr>entry_user = in_flight c ! k,
             entry_bot = botResponse a, entry_time = now\<rparr>])],
       conversation := conversation c @ [\<lparr>entry_user = in_flight c ! k,
             entry_bot = botResponse a, entry_time = now\<rparr>]\<rparr>"
  using assms
  by (auto simp: settle_ext_def try_block_ext_def prim_defs)

lemma pending_fields:
  "in_flight pending = [js ''hello'']" "isLoading pending" "inputMessage pending = []"
  "messages pending = [userMessage example_props example_submit_clock (js ''hello'')]"
  by (simp_all add: pending_def handleSendMessage_sends composing_fields trim_hello js_hello_nonempty)

lemma pending_ext_fields:
  "in_flight pending_ext = [js ''hello'']" "isLoading pending_ext" "inputMessage pending_ext = []"
  "conversation pending_ext = []"
  by (simp_all add: pending_ext_def handleSendMessage_ext_sends composing_ext_fields trim_hello
      js_hello_nonempty)

lemma settle_fetches:
  "filter is_fetch (calls (settle p k outcome clk c)) = filter is_fetch (calls c)"
proof (cases "k < length (in_flight c)")
  case False
  then show ?thesis by (simp add: settle_def)
next
  case True
  show ?thesis
  proof (cases "early_throw outcome")
    case (Some e)
    with True show ?thesis by (simp add: settle_early_throw)
  next
    case None
    then obtain res data a where "outcome = Fetch_resolves res" "ok res"
      "json_result res = Body data" "data_answer data = Inr a"
      by (auto simp: early_throw_None)
    with True show ?thesis
      by (simp add: settle_reply split: option.splits completion.splits)
  qed
qed

lemma settle_ext_fetches:
  "filter is_fetch (calls (settle_ext k outcome now c)) = filter is_fetch (calls c)"
proof (cases "k < length (in_flight c)")
  case False
  then show ?thesis by (simp add: settle_ext_def)
next
  case True
  show ?thesis
  proof (cases "early_throw outcome")
    case (Some e)
    with True show ?thesis by (simp add: settle_ext_early_throw)
  next
    case None
    then obtain res data a where "outcome = Fetch_resolves res" "ok res"
      "json_result res = Body data" "data_answer data = Inr a"
      by (auto simp: early_throw_None)
    with True show ?thesis by (simp add: settle_ext_reply)
  qed
qed

lemma step_new_fetch:
  assumes "guarded c"
    and "length (filter is_fetch (calls c)) < length (filter is_fetch (calls (step p e c)))"
  shows "in_flight c = []"
proof (cases e)
  case (Click clk)
  with assms show ?thesis
    by (cases "trim (inputMessage c) = [] \<or> isLoading c")
       (auto simp: handleSendMessage_blocked guarded_def)
next
  case (KeyPress ev clk)
  with assms show ?thesis
    by (cases "trim (inputMessage c) = [] \<or> isLoading c")
       (auto simp: handleKeyPress_def handleSendMessage_def guarded_def log_call_def
          split: if_splits)
next
  case (Change s)
  with assms show ?thesis by (simp add: setInputMessage_def)
next
  case Toggle
  with assms show ?thesis by (simp add: toggleChat_def setIsOpen_def)
next
  case (Settle k outcome clk)
  with assms show ?thesis by (simp add: settle_fetches)
qed

lemma step_ext_new_fetch:
  assumes "guarded c"
    and "length (filter is_fetch (calls c)) < length (filter is_fetch (calls (step_ext p e c)))"
  shows "in_flight c = []"
proof (cases e)
  case (Click clk)
  with assms show ?thesis
    by (cases "trim (inputMessage c) = [] \<or> isLoading c")
       (auto simp: handleSendMessage_ext_blocked guarded_def)
next
  case (KeyPress ev clk)
  with assms show ?thesis
    by (cases "trim (inputMessage c) = [] \<or> isLoading c")
       (auto simp: handleKeyPress_ext_def handleSendMessage_ext_def guarded_def log_call_def
          split: if_splits)
next
  case (Change s)
  with assms show ?thesis by (simp add: setInputMessage_def)
next
  case Toggle
  with assms show ?thesis by (simp add: toggleChat_def setIsOpen_def)
next
  case (Settle k outcome clk)
  with assms show ?thesis by (simp add: settle_ext_fetches)
qed


subsection \<open>The store only grows\<close>

lemma appended_append: "appended (xs @ ys) = appended xs @ appended ys"
  by (induction xs rule: appended.induct) simp_all

lemma appended_ext_append: "appended_ext (xs @ ys) = appended_ext xs @ appended_ext ys"
  by (induction xs rule: appended_ext.induct) simp_all

lemma extends_refl: "extends c c"
  by (simp add: extends_def)

lemma extends_trans:
  assumes "extends a b" and "extends b c"
  shows "extends a c"
proof -
  from assms(1) obtain n1 where n1: "calls b = calls a @ n1" "messages b = messages a @ appended n1"
    "\<forall>f. SetMessages f \<in> set n1 \<longrightarrow> (\<exists>m. f = (\<lambda>prev. prev @ [m]))"
    by (auto simp: extends_def)
  from assms(2) obtain n2 where n2: "calls c = calls b @ n2" "messages c = messages b @ appended n2"
    "\<forall>f. SetMessages f \<in> set n2 \<longrightarrow> (\<exists>m. f = (\<lambda>prev. prev @ [m]))"
    by (auto simp: extends_def)
  have "calls c = calls a @ (n1 @ n2)" "messages c = messages a @ appended (n1 @ n2)"
    using n1 n2 by (simp_all add: appended_append)
  moreover have "\<forall>f. SetMessages f \<in> set (n1 @ n2) \<longrightarrow> (\<exists>m. f = (\<lambda>prev. prev @ [m]))"
    using n1(3) n2(3) by auto
  ultimately show ?thesis
    unfolding extends_def by blast
qed

lemma extends_ext_refl: "extends_ext c c"
  by (simp add: extends_ext_def)

lemma extends_ext_trans:
  assumes "extends_ext a b" and "extends_ext b c"
  shows "extends_ext a c"
proof -
  from assms(1) obtain n1 where n1: "calls b = calls a @ n1"
    "conversation b = conversation a @ appended_ext n1"
    "\<forall>f. SetConversation f \<in> set n1 \<longrightarrow> (\<exists>m. f = (\<lambda>prev. prev @ [m]))"
    by (auto simp: extends_ext_def)
  from assms(2) obtain n2 where n2: "calls c = calls b @ n2"
    "conversation c = conversation b @ appended_ext n2"
    "\<forall>f. SetConversation f \<in> set n2 \<longrightarrow> (\<exists>m. f = (\<lambda>prev. prev @ [m]))"
    by (auto simp: extends_ext_def)
  have "calls c = calls a @ (n1 @ n2)" "conversation c = conversation a @ appended_ext (n1 @ n2)"
    using n1 n2 by (simp_all add: appended_ext_append)
  moreover have "\<forall>f. SetConversation f \<in> set (n1 @ n2) \<longrightarrow> (\<exists>m. f = (\<lambda>prev. prev @ [m]))"
    using n1(3) n2(3) by auto
  ultimately show ?thesis
    unfolding extends_ext_def by blast
qed

lemma extends_log_call:
  "\<not> (\<exists>f. x = SetMessages f) \<Longrightarrow> extends c (log_call x c)"
  unfolding extends_def
  by (rule exI [of _ "[x]"]) (cases x; simp add: log_call_def)

lemma extends_ext_log_call:
  "\<not> (\<exists>f. x = SetConversation f) \<Longrightarrow> extends_ext c (log_call x c)"
  unfolding extends_ext_def
  by (rule exI [of _ "[x]"]) (cases x; simp add: log_call_def)

lemma handleSendMessage_extends: "extends c (handleSendMessage p clk c)"
proof (cases "trim (inputMessage c) = [] \<or> isLoading c")
  case True
  then show ?thesis by (simp add: handleSendMessage_blocked extends_refl)
next
  case False
  then have g: "trim (inputMessage c) \<noteq> []" "\<not> isLoading c" by simp_all
  show ?thesis
    unfolding extends_def
    by (rule exI [of _ "[SetMessages (\<lambda>prev. prev @ [userMessage p clk (inputMessage c)]),
          Fetch (request_of (the_apiEndpoint p) (chatbotId p) (apiKey p)
            \<lparr>body_message = trim (inputMessage c), body_userId = user_id (user p),
             body_timestamp = now_body clk\<rparr>)]"])
       (auto simp: handleSendMessage_sends [OF g])
qed

lemma handleSendMessage_ext_extends: "extends_ext c (handleSendMessage_ext p now c)"
proof (cases "trim (inputMessage c) = [] \<or> isLoading c")
  case True
  then show ?thesis by (simp add: handleSendMessage_ext_blocked extends_ext_refl)
next
  case False
  then have g: "trim (inputMessage c) \<noteq> []" "\<not> isLoading c" by simp_all
  show ?thesis
    unfolding extends_ext_def
    by (rule exI [of _ "[Fetch (request_of (the_apiEndpoint_ext p) (chatbotId_ext p) (apiKey_ext p)
            \<lparr>body_message = trim (inputMessage c), body_userId = id_ext (user_ext p),
             body_timestamp = now\<rparr>)]"])
       (auto simp: handleSendMessage_ext_sends [OF g])
qed

lemma settle_extends: "extends c (settle p k outcome clk c)"
proof (cases "k < length (in_flight c)")
  case False
  then show ?thesis by (simp add: settle_def extends_refl)
next
  case True
  show ?thesis
  proof (cases "early_throw outcome")
    case (Some e)
    show ?thesis
      unfolding extends_def
      by (rule exI [of _ "[ConsoleError e, SetMessages (\<lambda>prev. prev @ [errorMessage p clk])]"])
         (auto simp: settle_early_throw [OF True Some])
  next
    case None
    then obtain res data a where o: "outcome = Fetch_resolves res" and r: "ok res"
      "json_result res = Body data" "data_answer data = Inr a"
      by (auto simp: early_throw_None)
    show ?thesis
      unfolding extends_def o settle_reply [OF True r]
      by (rule exI [of _ "SetMessages (\<lambda>prev. prev @ [botMessage p clk (botResponse a)]) #
         (case onSaveMessage p of
            None \<Rightarrow> []
          | Some callback \<Rightarrow> OnSaveMessage (saved p (in_flight c ! k) a) #
              (case callback (saved p (in_flight c ! k) a) of
                 Returns \<Rightarrow> []
               | Throws \<Rightarrow> [ConsoleError CallbackError,
                   SetMessages (\<lambda>prev. prev @ [errorMessage p clk])]))"])
         (auto split: option.splits completion.splits)
  qed
qed

lemma settle_ext_extends: "extends_ext c (settle_ext k outcome now c)"
proof (cases "k < length (in_flight c)")
  case False
  then show ?thesis by (simp add: settle_ext_def extends_ext_refl)
next
  case True
  show ?thesis
  proof (cases "early_throw outcome")
    case (Some e)
    show ?thesis
      unfolding extends_ext_def
      by (rule exI [of _ "[ConsoleError e,
          SetConversation (\<lambda>prev. prev @ [\<lparr>entry_user = in_flight c ! k,
             entry_bot = JString apologyText, entry_time = now\<rparr>])]"])
         (auto simp: settle_ext_early_throw [OF True Some])
  next
    case None
    then obtain res data a where o: "outcome = Fetch_resolves res" and r: "ok res"
      "json_result res = Body data" "data_answer data = Inr a"
      by (auto simp: early_throw_None)
    show ?thesis
      unfolding extends_ext_def o settle_ext_reply [OF True r]
      by (rule exI [of _ "[SetConversation (\<lambda>prev. prev @ [\<lparr>entry_user = in_flight c ! k,
             entry_bot = botResponse a, entry_time = now\<rparr>])]"])
         auto
  qed
qed

lemma step_extends: "extends c (step p e c)"
proof (cases e)
  case (Click clk)
  then show ?thesis by (simp add: handleSendMessage_extends)
next
  case (KeyPress ev clk)
  have "extends c (log_call PreventDefault c)"
    by (simp add: extends_log_call)
  moreover have "extends (log_call PreventDefault c) (handleSendMessage p clk (log_call PreventDefault c))"
    by (rule handleSendMessage_extends)
  ultimately show ?thesis
    using KeyPress by (auto simp: handleKeyPress_def extends_refl intro: extends_trans)
next
  case (Change s)
  then show ?thesis by (simp add: extends_def setInputMessage_def)
next
  case Toggle
  then show ?thesis by (simp add: extends_def toggleChat_def setIsOpen_def)
next
  case (Settle k outcome clk)
  then show ?thesis by (simp add: settle_extends)
qed

lemma step_ext_extends: "extends_ext c (step_ext p e c)"
proof (cases e)
  case (Click clk)
  then show ?thesis by (simp add: handleSendMessage_ext_extends)
next
  case (KeyPress ev clk)
  have "extends_ext c (log_call PreventDefault c)"
    by (simp add: extends_ext_log_call)
  moreover have "extends_ext (log_call PreventDefault c)
      (handleSendMessage_ext p clk (log_call PreventDefault c))"
    by (rule handleSendMessage_ext_extends)
  ultimately show ?thesis
    using KeyPress by (auto simp: handleKeyPress_ext_def extends_ext_refl intro: extends_ext_trans)
next
  case (Change s)
  then show ?thesis by (simp add: extends_ext_def setInputMessage_def)
next
  case Toggle
  then show ?thesis by (simp add: extends_ext_def toggleChat_def setIsOpen_def)
next
  case (Settle k outcome clk)
  then show ?thesis by (simp add: settle_ext_extends)
qed

lemma run_extends: "extends c (run p es c)"
proof (induction es rule: rev_induct)
  case Nil
  show ?case by (simp add: run_def extends_refl)
next
  case (snoc e es)
  then show ?case
    using step_extends [of "run p es c" p e] by (auto simp: run_snoc intro: extends_trans)
qed

lemma run_ext_extends: "extends_ext c (run_ext p es c)"
proof (induction es rule: rev_induct)
  case Nil
  show ?case by (simp add: run_ext_def extends_ext_refl)
next
  case (snoc e es)
  then show ?case
    using step_ext_extends [of "run_ext p es c" p e]
    by (auto simp: run_ext_snoc intro: extends_ext_trans)
qed


subsection \<open>Reading \<open>data.answer\<close>\<close>

lemma data_answer_None_iff:
  "data_answer data = Inr None \<longleftrightarrow>
     data \<noteq> JNull \<and> (\<forall>kvs. data = JObject kvs \<longrightarrow> js ''answer'' \<notin> fst ` set kvs)"
  by (cases data) (auto simp: map_of_eq_None_iff)

lemma data_answer_Inr_iff: "(\<exists>a. data_answer data = Inr a) \<longleftrightarrow> data \<noteq> JNull"
  by (cases data) auto

lemma botResponse_fallback:
  "botResponse None = JString fallbackText" "botResponse (Some (JString [])) = JString fallbackText"
  by (simp_all add: botResponse_def)

lemma message_fields:
  "msg_type (userMessage p sclk t) = User" "message (userMessage p sclk t) = JString (trim t)"
  "msg_type (botMessage p clk r) = Bot" "message (botMessage p clk r) = r"
  "msg_type (errorMessage p clk) = Bot" "message (errorMessage p clk) = JString apologyText"
  by (simp_all add: userMessage_def botMessage_def errorMessage_def)

lemma ok_examples: "ok null_response" "ok hi_response" "ok empty_response" "\<not> ok error_response"
  by (simp_all add: ok_def null_response_def hi_response_def empty_response_def error_response_def)

lemma json_examples:
  "json_result null_response = Body JNull"
  "json_result hi_response = Body (JObject [(js ''answer'', JString (js ''X''))])"
  "json_result empty_response = Body (JObject [])"
  by (simp_all add: null_response_def hi_response_def empty_response_def)


subsection \<open>Calls on the host\<close>

lemma step_ext_no_save: "filter is_save (calls (step_ext q e d)) = filter is_save (calls d)"
proof -
  show ?thesis
  proof (cases e)
    case (Click now)
    then show ?thesis by (simp add: handleSendMessage_ext_def prim_defs)
  next
    case (KeyPress ev now)
    then show ?thesis by (simp add: handleKeyPress_ext_def handleSendMessage_ext_def prim_defs)
  next
    case (Change s)
    then show ?thesis by (simp add: setInputMessage_def)
  next
    case Toggle
    then show ?thesis by (simp add: toggleChat_def setIsOpen_def)
  next
    case (Settle k outcome now)
    show ?thesis
    proof (cases "k < length (in_flight d)")
      case False
      with Settle show ?thesis by (simp add: settle_ext_def)
    next
      case True
      show ?thesis
      proof (cases "early_throw outcome")
        case (Some x)
        with Settle True show ?thesis by (simp add: settle_ext_early_throw)
      next
        case None
        then obtain res data a where "outcome = Fetch_resolves res" "ok res"
          "json_result res = Body data" "data_answer data = Inr a"
          by (auto simp: early_throw_None)
        with Settle True show ?thesis by (simp add: settle_ext_reply)
      qed
    qed
  qed
qed

lemma run_ext_no_save: "filter is_save (calls (run_ext q es d)) = filter is_save (calls d)"
  by (induction es rule: rev_induct) (simp_all add: run_ext_def step_ext_no_save)

lemma settle_ext_to_host:
  assumes "j < length (in_flight d)"
  shows "\<exists>bot. filter to_host (calls (settle_ext j outcome now d)) =
     filter to_host (calls d) @
       [SetConversation (\<lambda>prev. prev @ [\<lparr>entry_user = in_flight d ! j, entry_bot = bot,
          entry_time = now\<rparr>])]"
proof (cases "early_throw outcome")
  case (Some x)
  show ?thesis
    by (rule exI [of _ "JString apologyText"]) (simp add: settle_ext_early_throw [OF assms Some])
next
  case None
  then obtain res data a where o: "outcome = Fetch_resolves res" and r: "ok res"
    "json_result res = Body data" "data_answer data = Inr a"
    by (auto simp: early_throw_None)
  show ?thesis
    unfolding o by (rule exI [of _ "botResponse a"]) (simp add: settle_ext_reply [OF assms r])
qed


subsection \<open>More of the sample session\<close>

lemma mount_calls: "calls (mount p) = []" "messages (mount p) = the_initialMessages p"
  "calls (mount_ext conv) = []" "conversation (mount_ext conv) = conv"
  by (simp_all add: mount_def mount_ext_def)



lemma data_answer_hi:
  "data_answer (JObject [(js ''answer'', JString (js ''X''))]) = Inr (Some (JString (js ''X'')))"
  "botResponse (Some (JString (js ''X''))) = JString (js ''X'')"
  by (simp_all add: botResponse_def js_def)


subsection \<open>What one event appends\<close>




subsection \<open>Closures of a render\<close>

lemma handleSendMessage_from_self: "handleSendMessage_from c p clk c = handleSendMessage p clk c"
  by (simp add: handleSendMessage_from_def handleSendMessage_def)

lemma handleSendMessage_ext_from_self:
  "handleSendMessage_ext_from c p now c = handleSendMessage_ext p now c"
  by (simp add: handleSendMessage_ext_from_def handleSendMessage_ext_def)





lemma handleSendMessage_from_twice:
  assumes "trim (inputMessage r) \<noteq> []" and "\<not> isLoading r"
  shows "in_flight (handleSendMessage_from r p clk' (handleSendMessage_from r p clk c)) =
      in_flight c @ [inputMessage r, inputMessage r]"
    and "filter is_fetch (calls (handleSendMessage_from r p clk' (handleSendMessage_from r p clk c))) =
      filter is_fetch (calls c) @
        [Fetch (request_of (the_apiEndpoint p) (chatbotId p) (apiKey p)
           \<lparr>body_message = trim (inputMessage r), body_userId = user_id (user p),
            body_timestamp = now_body clk\<rparr>),
         Fetch (request_of (the_apiEndpoint p) (chatbotId p) (apiKey p)
           \<lparr>body_message = trim (inputMessage r), body_userId = user_id (user p),
            body_timestamp = now_body clk'\<rparr>)]"
    and "messages (handleSendMessage_from r p clk' (handleSendMessage_from r p clk c)) =
      messages c @ [userMessage p clk (inputMessage r), userMessage p clk' (inputMessage r)]"
  using assms by (simp_all add: handleSendMessage_from_def prim_defs)

lemma handleSendMessage_ext_from_twice:
  assumes "trim (inputMessage r) \<noteq> []" and "\<not> isLoading r"
  shows "in_flight (handleSendMessage_ext_from r p now' (handleSendMessage_ext_from r p now c)) =
      in_flight c @ [trim (inputMessage r), trim (inputMessage r)]"
    and "filter is_fetch
        (calls (handleSendMessage_ext_from r p now' (handleSendMessage_ext_from r p now c))) =
      filter is_fetch (calls c) @
        [Fetch (request_of (the_apiEndpoint_ext p) (chatbotId_ext p) (apiKey_ext p)
           \<lparr>body_message = trim (inputMessage r), body_userId = id_ext (user_ext p),
            body_timestamp = now\<rparr>),
         Fetch (request_of (the_apiEndpoint_ext p) (chatbotId_ext p) (apiKey_ext p)
           \<lparr>body_message = trim (inputMessage r), body_userId = id_ext (user_ext p),
            body_timestamp = now'\<rparr>)]"
  using assms by (simp_all add: handleSendMessage_ext_from_def prim_defs)

lemma stale_run:
  "run_from example_props
     [Dispatch (Change (js ''hello'')), Rerender, Dispatch (Click example_submit_clock),
      Dispatch (Click second_submit_clock)] (mount example_props, mount example_props) =
   (composing,
    handleSendMessage_from composing example_props second_submit_clock
      (handleSendMessage_from composing example_props example_submit_clock composing))"
  by (simp add: composing_def)

lemma stale_run_ext:
  "run_ext_from example_props_ext
     [Dispatch (Change (js ''hello'')), Rerender, Dispatch (Click 1001), Dispatch (Click 1003)]
     (mount_ext [], mount_ext []) =
   (composing_ext,
    handleSendMessage_ext_from composing_ext example_props_ext 1003
      (handleSendMessage_ext_from composing_ext example_props_ext 1001 composing_ext))"
  by (simp add: composing_ext_def)














section \<open>The claims\<close>

text \<open>
  C1. At most one network call is outstanding at any time: while the pending flag is set,
  a further submit trigger issues no call. The code does not keep this. The guard of
  \<open>handleSendMessage\<close> reads the \<open>isLoading\<close> of the render that created the handler,
  so two triggers that reach the handlers of one render both pass it. Below: the user has
  typed \<open>hello\<close>, React has rendered, and two clicks on the send button are dispatched
  before it renders again. Two calls are in flight and two requests were sent, in both
  components.
\<close>

theorem two_submits_one_render:
  "in_flight (snd (run_from example_props
      [Dispatch (Change (js ''hello'')), Rerender, Dispatch (Click example_submit_clock),
       Dispatch (Click second_submit_clock)] (mount example_props, mount example_props))) =
     [js ''hello'', js ''hello'']
   \<and> length (filter is_fetch (calls (snd (run_from example_props
      [Dispatch (Change (js ''hello'')), Rerender, Dispatch (Click example_submit_clock),
       Dispatch (Click second_submit_clock)] (mount example_props, mount example_props))))) = 2
   \<and> in_flight (snd (run_ext_from example_props_ext
      [Dispatch (Change (js ''hello'')), Rerender, Dispatch (Click 1001), Dispatch (Click 1003)]
      (mount_ext [], mount_ext []))) =
     [js ''hello'', js ''hello'']
   \<and> length (filter is_fetch (calls (snd (run_ext_from example_props_ext
      [Dispatch (Change (js ''hello'')), Rerender, Dispatch (Click 1001), Dispatch (Click 1003)]
      (mount_ext [], mount_ext []))))) = 2"
proof -
  have g: "trim (inputMessage composing) \<noteq> []" "\<not> isLoading composing"
    by (simp_all add: composing_fields trim_hello js_hello_nonempty)
  have g': "trim (inputMessage composing_ext) \<noteq> []" "\<not> isLoading composing_ext"
    by (simp_all add: composing_ext_fields trim_hello js_hello_nonempty)
  show ?thesis
    unfolding stale_run stale_run_ext
    by (simp add: handleSendMessage_from_twice [OF g]
        handleSendMessage_ext_from_twice [OF g'] composing_fields composing_ext_fields trim_hello)
qed

text \<open>
  What the guard does achieve: when every event is served by a render of the current
  state, at most one call is in flight in every state reached from the first render, the
  pending flag is set exactly when one is, no event but the settling of that call issues a
  call while it is set, and an event that issues a call finds none in flight.
\<close>

lemma guard_on_fresh_renders:
  fixes p :: chatbot_props and es :: "(submit_clock, settle_clock) event list"
    and q :: chatbot_props_ext and ds :: "(int, int) event list"
    and conv :: "conversation_entry list"
  defines "c \<equiv> run p es (mount p)" and "d \<equiv> run_ext q ds (mount_ext conv)"
  shows "length (in_flight c) \<le> 1
    \<and> isLoading c = (in_flight c \<noteq> [])
    \<and> (isLoading c \<and> \<not> is_settle e \<longrightarrow>
          in_flight (step p e c) = in_flight c
          \<and> filter is_fetch (calls (step p e c)) = filter is_fetch (calls c))
    \<and> (length (filter is_fetch (calls c)) < length (filter is_fetch (calls (step p e c))) \<longrightarrow>
          in_flight c = [])
    \<and> length (in_flight d) \<le> 1
    \<and> isLoading d = (in_flight d \<noteq> [])
    \<and> (isLoading d \<and> \<not> is_settle e' \<longrightarrow>
          in_flight (step_ext q e' d) = in_flight d
          \<and> filter is_fetch (calls (step_ext q e' d)) = filter is_fetch (calls d))
    \<and> (length (filter is_fetch (calls d)) < length (filter is_fetch (calls (step_ext q e' d))) \<longrightarrow>
          in_flight d = [])"
proof -
  have c: "guarded c" and d: "guarded d"
    unfolding c_def d_def by (simp_all add: run_guarded run_ext_guarded mount_guarded)
  from c have "length (in_flight c) \<le> 1" "isLoading c = (in_flight c \<noteq> [])"
    by (simp_all add: guarded_def)
  moreover from d have "length (in_flight d) \<le> 1" "isLoading d = (in_flight d \<noteq> [])"
    by (simp_all add: guarded_def)
  ultimately show ?thesis
    using step_while_loading(2,5) [of c e p] step_ext_while_loading(2,5) [of d e' q]
      step_new_fetch [OF c, of p e] step_ext_new_fetch [OF d, of q e']
    by blast
qed

lemma guard_on_fresh_renders_example:
  "isLoading (run example_props [Change (js ''hello''), Click example_submit_clock] (mount example_props))
   \<and> in_flight (run example_props [Change (js ''hello''), Click example_submit_clock] (mount example_props))
     = [js ''hello'']
   \<and> in_flight (step example_props (Click example_submit_clock)
        (run example_props [Change (js ''hello''), Click example_submit_clock] (mount example_props)))
     = [js ''hello'']
   \<and> isLoading (run_ext example_props_ext [Change (js ''hello''), Click 1001] (mount_ext []))
   \<and> in_flight (run_ext example_props_ext [Change (js ''hello''), Click 1001] (mount_ext []))
     = [js ''hello'']
   \<and> in_flight (step_ext example_props_ext (Click 1002)
        (run_ext example_props_ext [Change (js ''hello''), Click 1001] (mount_ext [])))
     = [js ''hello'']"
proof -
  have r: "run example_props [Change (js ''hello''), Click example_submit_clock] (mount example_props)
      = pending"
    by (simp add: run_def pending_def composing_def)
  have r': "run_ext example_props_ext [Change (js ''hello''), Click 1001] (mount_ext []) = pending_ext"
    by (simp add: run_ext_def pending_ext_def composing_ext_def)
  show ?thesis
    using guard_on_fresh_renders [of example_props "[Change (js ''hello''), Click example_submit_clock]"
        "Click example_submit_clock" example_props_ext "[Change (js ''hello''), Click 1001]" "[]"
        "Click 1002"]
    by (simp add: r r' pending_fields pending_ext_fields)
qed



text \<open>
  C3 (as amended). For every response with a success status whose body parses to a JSON
  value other than \<open>null\<close> and either has no \<open>answer\<close> member or has the empty string as
  its \<open>answer\<close>, the bot text appended to the store is the fixed fallback string, in both
  components. (In \<open>Chatbot.tsx\<close> an apology follows it when the host's save callback
  throws.) A body that is JSON \<open>null\<close> is not covered: there the read of \<open>data.answer\<close>
  throws and the apology is appended instead, as the counterexample after the theorem
  shows.
\<close>

theorem fallback_law:
  assumes "ok res" and "json_result res = Body data" and "data \<noteq> JNull"
    and "data_answer data = Inr None \<or> data_answer data = Inr (Some (JString []))"
    and "k < length (in_flight c)" and "j < length (in_flight d)"
  shows "messages (settle p k (Fetch_resolves res) clk c) =
      messages c @ botMessage p clk (JString fallbackText) #
        (if callback_throws p \<lparr>question = trim (in_flight c ! k), answer = JString fallbackText,
              userId = user_id (user p)\<rparr>
         then [errorMessage p clk] else [])
    \<and> message (botMessage p clk (JString fallbackText)) = JString fallbackText
    \<and> conversation (settle_ext j (Fetch_resolves res) now d) =
      conversation d @ [\<lparr>entry_user = in_flight d ! j, entry_bot = JString fallbackText,
        entry_time = now\<rparr>]"
proof -
  from assms(4) obtain a where a: "data_answer data = Inr a" "botResponse a = JString fallbackText"
    by (auto simp: botResponse_fallback)
  have "messages (settle p k (Fetch_resolves res) clk c) =
      messages c @ botMessage p clk (JString fallbackText) #
        (if callback_throws p \<lparr>question = trim (in_flight c ! k), answer = JString fallbackText,
              userId = user_id (user p)\<rparr>
         then [errorMessage p clk] else [])"
    using a(2)
    by (simp add: settle_reply [OF assms(5) assms(1) assms(2) a(1)] callback_throws_def saved_def
        split: option.splits completion.splits)
  moreover have "conversation (settle_ext j (Fetch_resolves res) now d) =
      conversation d @ [\<lparr>entry_user = in_flight d ! j, entry_bot = JString fallbackText,
        entry_time = now\<rparr>]"
    using a(2) by (simp add: settle_ext_reply [OF assms(6) assms(1) assms(2) a(1)])
  ultimately show ?thesis
    by (simp add: message_fields)
qed

theorem fallback_law_witness:
  "ok empty_response \<and> json_result empty_response = Body (JObject [])
   \<and> data_answer (JObject []) = Inr None
   \<and> messages (settle example_props 0 (Fetch_resolves empty_response) example_settle_clock pending) =
       [userMessage example_props example_submit_clock (js ''hello''),
        botMessage example_props example_settle_clock (JString fallbackText)]
   \<and> conversation (settle_ext 0 (Fetch_resolves empty_response) 2000 pending_ext) =
       [\<lparr>entry_user = js ''hello'', entry_bot = JString fallbackText, entry_time = 2000\<rparr>]"
  using fallback_law [of empty_response "JObject []" 0 pending 0 pending_ext example_props
      example_settle_clock 2000]
  by (simp add: ok_examples json_examples pending_fields pending_ext_fields callback_throws_def
      example_props_def)

theorem fallback_law_counterexample:
  "ok null_response \<and> json_result null_response = Body JNull
   \<and> messages (settle example_props 0 (Fetch_resolves null_response) example_settle_clock pending) =
       messages pending @ [errorMessage example_props example_settle_clock]
   \<and> message (errorMessage example_props example_settle_clock) = JString apologyText
   \<and> conversation (settle_ext 0 (Fetch_resolves null_response) 2000 pending_ext) =
       conversation pending_ext @
         [\<lparr>entry_user = js ''hello'', entry_bot = JString apologyText, entry_time = 2000\<rparr>]
   \<and> apologyText \<noteq> fallbackText"
proof -
  have t: "early_throw (Fetch_resolves null_response) = Some TypeError"
    by (simp add: ok_examples json_examples)
  have k: "0 < length (in_flight pending)" "0 < length (in_flight pending_ext)"
    by (simp_all add: pending_fields pending_ext_fields)
  show ?thesis
    by (simp add: settle_early_throw [OF k(1) t] settle_ext_early_throw [OF k(2) t] ok_examples
        json_examples message_fields texts_differ pending_ext_fields)
qed

text \<open>
  C4. When the call rejects, or resolves with a status outside 200..299, the bot turn
  appended is the fixed apology string, \<open>onSaveMessage\<close> is not called, and the pending
  flag is cleared, in both components.
\<close>

theorem failure_law:
  assumes "outcome = Fetch_rejects \<or> (\<exists>res. outcome = Fetch_resolves res \<and> \<not> ok res)"
    and "k < length (in_flight c)" and "j < length (in_flight d)"
  shows "messages (settle p k outcome clk c) = messages c @ [errorMessage p clk]
    \<and> msg_type (errorMessage p clk) = Bot
    \<and> message (errorMessage p clk) = JString apologyText
    \<and> filter is_save (calls (settle p k outcome clk c)) = filter is_save (calls c)
    \<and> \<not> isLoading (settle p k outcome clk c)
    \<and> conversation (settle_ext j outcome now d) =
        conversation d @ [\<lparr>entry_user = in_flight d ! j, entry_bot = JString apologyText,
          entry_time = now\<rparr>]
    \<and> filter is_save (calls (settle_ext j outcome now d)) = filter is_save (calls d)
    \<and> \<not> isLoading (settle_ext j outcome now d)"
proof -
  from assms(1) obtain e where e: "early_throw outcome = Some e"
    by auto
  show ?thesis
    by (simp add: settle_early_throw [OF assms(2) e] settle_ext_early_throw [OF assms(3) e]
        message_fields)
qed

theorem failure_law_witness:
  "\<not> ok error_response
   \<and> messages (settle example_props 0 (Fetch_resolves error_response) example_settle_clock pending) =
       [userMessage example_props example_submit_clock (js ''hello''),
        errorMessage example_props example_settle_clock]
   \<and> filter is_save (calls (settle example_props 0 (Fetch_resolves error_response)
        example_settle_clock pending)) = []
   \<and> \<not> isLoading (settle example_props 0 (Fetch_resolves error_response) example_settle_clock pending)
   \<and> conversation (settle_ext 0 Fetch_rejects 2000 pending_ext) =
       [\<lparr>entry_user = js ''hello'', entry_bot = JString apologyText, entry_time = 2000\<rparr>]
   \<and> \<not> isLoading (settle_ext 0 Fetch_rejects 2000 pending_ext)"
proof -
  have calls: "filter is_save (calls pending) = []"
    by (simp add: pending_def handleSendMessage_sends composing_fields trim_hello js_hello_nonempty)
  show ?thesis
    using failure_law [of "Fetch_resolves error_response" 0 pending 0 pending_ext example_props
        example_settle_clock 2000]
      failure_law [of Fetch_rejects 0 pending 0 pending_ext example_props example_settle_clock 2000]
    by (simp add: ok_examples pending_fields pending_ext_fields calls)
qed

text \<open>
  C5 (as amended). In \<open>Chatbot.tsx\<close>, when an \<open>onSaveMessage\<close> callback was supplied and
  the call resolves with a success status and a body that parses to a JSON value other than
  \<open>null\<close>, the callback is called exactly once, with \<open>question\<close> the trimmed text the
  user submitted (although the input box was cleared at submit, and whatever was typed
  since), \<open>answer\<close> the bot text appended to the store, and \<open>userId\<close> the configured
  user's id. A success status alone is not enough: with the body \<open>null\<close> the callback is
  never called, as the counterexample after the theorem shows.
\<close>

theorem save_callback_law:
  assumes "onSaveMessage p = Some callback"
    and "trim (inputMessage c) \<noteq> []" and "\<not> isLoading c" and "in_flight c = []"
    and "\<forall>e\<in>set es. \<not> is_settle e"
    and "ok res" and "json_result res = Body data" and "data_answer data = Inr a"
  shows "inputMessage (step p (Click clk) c) = []
    \<and> filter is_save
        (calls (step p (Settle 0 (Fetch_resolves res) clk') (run p es (step p (Click clk) c)))) =
      filter is_save (calls c) @
        [OnSaveMessage \<lparr>question = trim (inputMessage c), answer = botResponse a,
           userId = user_id (user p)\<rparr>]
    \<and> (\<exists>rest. messages (step p (Settle 0 (Fetch_resolves res) clk') (run p es (step p (Click clk) c))) =
          messages c @ userMessage p clk (inputMessage c) # botMessage p clk' (botResponse a) # rest)"
proof -
  let ?c1 = "handleSendMessage p clk c"
  let ?c2 = "run p es ?c1"
  have c1: "isLoading ?c1" "in_flight ?c1 = [inputMessage c]"
    "messages ?c1 = messages c @ [userMessage p clk (inputMessage c)]"
    "filter is_save (calls ?c1) = filter is_save (calls c)" "inputMessage ?c1 = []"
    using assms(2,3,4) by (simp_all add: handleSendMessage_sends)
  have c2: "in_flight ?c2 = [inputMessage c]"
    "messages ?c2 = messages c @ [userMessage p clk (inputMessage c)]"
    "filter is_save (calls ?c2) = filter is_save (calls c)"
    using run_while_loading [OF assms(5) c1(1), of p] c1 by simp_all
  have k: "0 < length (in_flight ?c2)"
    using c2(1) by simp
  note s = settle_reply [OF k assms(6) assms(7) assms(8), of p clk']
  have "filter is_save (calls (settle p 0 (Fetch_resolves res) clk' ?c2)) =
      filter is_save (calls c) @
        [OnSaveMessage \<lparr>question = trim (inputMessage c), answer = botResponse a,
           userId = user_id (user p)\<rparr>]"
    using c2 assms(1) by (simp add: s saved_def split: completion.splits)
  moreover have "\<exists>rest. messages (settle p 0 (Fetch_resolves res) clk' ?c2) =
      messages c @ userMessage p clk (inputMessage c) # botMessage p clk' (botResponse a) # rest"
    using c2 by (simp add: s)
  ultimately show ?thesis
    using c1(5) by simp
qed

theorem save_callback_law_witness:
  "onSaveMessage example_props \<noteq> None \<and> ok hi_response
   \<and> data_answer (JObject [(js ''answer'', JString (js ''X''))]) = Inr (Some (JString (js ''X'')))
   \<and> filter is_save
       (calls (step example_props (Settle 0 (Fetch_resolves hi_response) example_settle_clock)
          (run example_props [Change (js ''next''), Toggle]
             (step example_props (Click example_submit_clock) composing)))) =
       [OnSaveMessage \<lparr>question = js ''hello'', answer = JString (js ''X''), userId = js ''u1''\<rparr>]"
proof -
  have x: "botResponse (Some (JString (js ''X''))) = JString (js ''X'')"
    by (simp add: botResponse_def js_def)
  have u: "user_id (user example_props) = js ''u1''" "onSaveMessage example_props = Some (\<lambda>d. Returns)"
    by (simp_all add: example_props_def example_user_def)
  show ?thesis
    using save_callback_law [of example_props "\<lambda>d. Returns" composing "[Change (js ''next''), Toggle]"
        hi_response "JObject [(js ''answer'', JString (js ''X''))]" "Some (JString (js ''X''))"
        example_submit_clock example_settle_clock]
    by (simp add: u x ok_examples json_examples composing_fields trim_hello js_hello_nonempty)
qed

theorem save_callback_law_counterexample:
  "onSaveMessage example_props \<noteq> None \<and> ok null_response
   \<and> json_result null_response = Body JNull
   \<and> filter is_save
       (calls (step example_props (Settle 0 (Fetch_resolves null_response) example_settle_clock)
          (step example_props (Click example_submit_clock) composing))) = []"
proof -
  have t: "early_throw (Fetch_resolves null_response) = Some TypeError"
    by (simp add: ok_examples json_examples)
  have k: "0 < length (in_flight pending)"
    by (simp add: pending_fields)
  have calls: "filter is_save (calls pending) = []"
    by (simp add: pending_def handleSendMessage_sends composing_fields trim_hello js_hello_nonempty)
  have "step example_props (Click example_submit_clock) composing = pending"
    by (simp add: pending_def)
  then show ?thesis
    by (simp add: settle_early_throw [OF k t] calls ok_examples json_examples example_props_def)
qed




text \<open>
  C7 (as amended). A key press in the input box runs the submit action exactly when the
  key is Enter and Shift is not held; otherwise it does nothing. Ctrl, Alt and Meta are
  not looked at, so Enter with one of them held (and Shift not) does submit, as the
  counterexample after the theorem shows. Where the submit guard lets a submit
  through, a call is issued exactly on Enter without Shift. Both components.
\<close>

theorem key_press_submits:
  "handleKeyPress p (e\<lparr>ctrlKey := x, altKey := y, metaKey := z\<rparr>) clk c = handleKeyPress p e clk c
   \<and> (key e = js ''Enter'' \<and> \<not> shiftKey e \<longrightarrow>
        handleKeyPress p e clk c = handleSendMessage p clk (log_call PreventDefault c))
   \<and> (key e \<noteq> js ''Enter'' \<or> shiftKey e \<longrightarrow> handleKeyPress p e clk c = c)
   \<and> (trim (inputMessage c) \<noteq> [] \<and> \<not> isLoading c \<longrightarrow>
        (in_flight (handleKeyPress p e clk c) = in_flight c @ [inputMessage c])
          = (key e = js ''Enter'' \<and> \<not> shiftKey e))
   \<and> handleKeyPress_ext q (e\<lparr>ctrlKey := x, altKey := y, metaKey := z\<rparr>) now d
        = handleKeyPress_ext q e now d
   \<and> (key e = js ''Enter'' \<and> \<not> shiftKey e \<longrightarrow>
        handleKeyPress_ext q e now d = handleSendMessage_ext q now (log_call PreventDefault d))
   \<and> (key e \<noteq> js ''Enter'' \<or> shiftKey e \<longrightarrow> handleKeyPress_ext q e now d = d)
   \<and> (trim (inputMessage d) \<noteq> [] \<and> \<not> isLoading d \<longrightarrow>
        (in_flight (handleKeyPress_ext q e now d) = in_flight d @ [trim (inputMessage d)])
          = (key e = js ''Enter'' \<and> \<not> shiftKey e))"
  by (auto simp: handleKeyPress_def handleKeyPress_ext_def handleSendMessage_def
      handleSendMessage_ext_def prim_defs)

theorem key_press_submits_witness:
  "key ctrl_enter = js ''Enter'' \<and> \<not> shiftKey ctrl_enter
   \<and> handleKeyPress example_props ctrl_enter example_submit_clock composing =
       handleSendMessage example_props example_submit_clock (log_call PreventDefault composing)
   \<and> trim (inputMessage composing_ext) \<noteq> [] \<and> \<not> isLoading composing_ext
   \<and> in_flight (handleKeyPress_ext example_props_ext ctrl_enter 1001 composing_ext) = [js ''hello'']"
proof -
  note t = key_press_submits [where p = example_props and e = ctrl_enter and x = False and y = False
      and z = False and clk = example_submit_clock and c = composing and q = example_props_ext
      and now = 1001 and d = composing_ext]
  have e: "key ctrl_enter = js ''Enter'' \<and> \<not> shiftKey ctrl_enter"
    by (simp add: ctrl_enter_def)
  have g: "trim (inputMessage composing_ext) \<noteq> [] \<and> \<not> isLoading composing_ext"
    by (simp add: composing_ext_fields trim_hello js_hello_nonempty)
  from t e have 1: "handleKeyPress example_props ctrl_enter example_submit_clock composing =
      handleSendMessage example_props example_submit_clock (log_call PreventDefault composing)"
    by blast
  from t e g have 2: "in_flight (handleKeyPress_ext example_props_ext ctrl_enter 1001 composing_ext) =
      in_flight composing_ext @ [trim (inputMessage composing_ext)]"
    by blast
  show ?thesis
    using e g 1 2 by (simp add: composing_ext_fields trim_hello)
qed

theorem key_press_submits_counterexample:
  "ctrlKey ctrl_enter
   \<and> in_flight composing = []
   \<and> in_flight (handleKeyPress example_props ctrl_enter example_submit_clock composing) = [js ''hello'']
   \<and> in_flight composing_ext = []
   \<and> in_flight (handleKeyPress_ext example_props_ext ctrl_enter 1001 composing_ext) = [js ''hello'']"
  by (simp add: handleKeyPress_def handleKeyPress_ext_def handleSendMessage_def
      handleSendMessage_ext_def prim_defs ctrl_enter_def composing_fields composing_ext_fields
      trim_hello js_hello_nonempty)

text \<open>
  C8. In \<open>Chatbot.tsx\<close> a submit that passes the guard appends the user's message, with
  the trimmed input text, at once: it is in the store while the call is still in flight,
  and stays the last entry until the call settles. In the other component the submit, and
  every event up to the settling of the call, leaves the conversation as it was.
\<close>

theorem optimistic_echo:
  assumes "trim (inputMessage c) \<noteq> []" and "\<not> isLoading c"
    and "trim (inputMessage d) \<noteq> []" and "\<not> isLoading d"
    and "\<forall>e\<in>set es. \<not> is_settle e" and "\<forall>e\<in>set ds. \<not> is_settle e"
  shows "messages (handleSendMessage p clk c) = messages c @ [userMessage p clk (inputMessage c)]
    \<and> msg_type (userMessage p clk (inputMessage c)) = User
    \<and> message (userMessage p clk (inputMessage c)) = JString (trim (inputMessage c))
    \<and> in_flight (handleSendMessage p clk c) = in_flight c @ [inputMessage c]
    \<and> messages (run p es (handleSendMessage p clk c)) =
        messages c @ [userMessage p clk (inputMessage c)]
    \<and> in_flight (handleSendMessage_ext q now d) = in_flight d @ [trim (inputMessage d)]
    \<and> conversation (handleSendMessage_ext q now d) = conversation d
    \<and> conversation (run_ext q ds (handleSendMessage_ext q now d)) = conversation d
    \<and> in_flight (run_ext q ds (handleSendMessage_ext q now d)) = in_flight d @ [trim (inputMessage d)]"
proof -
  note s = handleSendMessage_sends [OF assms(1,2), of p clk]
  note s' = handleSendMessage_ext_sends [OF assms(3,4), of q now]
  show ?thesis
    using run_while_loading [OF assms(5) s(3), of p] run_ext_while_loading [OF assms(6) s'(3), of q]
    by (simp add: s s' message_fields)
qed

theorem optimistic_echo_witness:
  "trim (inputMessage composing) \<noteq> [] \<and> \<not> isLoading composing
   \<and> messages (run example_props [Toggle, Click example_submit_clock, Change (js ''next'')]
        (handleSendMessage example_props example_submit_clock composing)) =
     [userMessage example_props example_submit_clock (js ''hello'')]
   \<and> message (userMessage example_props example_submit_clock (js ''hello'')) = JString (js ''hello'')
   \<and> conversation (run_ext example_props_ext [Toggle, Click 1002, Change (js ''next'')]
        (handleSendMessage_ext example_props_ext 1001 composing_ext)) = []
   \<and> in_flight (run_ext example_props_ext [Toggle, Click 1002, Change (js ''next'')]
        (handleSendMessage_ext example_props_ext 1001 composing_ext)) = [js ''hello'']"
  using optimistic_echo [of composing composing_ext
      "[Toggle, Click example_submit_clock, Change (js ''next'')]"
      "[Toggle, Click 1002, Change (js ''next'')]" example_props example_submit_clock
      example_props_ext 1001]
  by (simp add: composing_fields composing_ext_fields trim_hello js_hello_nonempty)

text \<open>
  C9. In \<open>Chatbot.tsx\<close> a failed exchange keeps the optimistic echo: after a submit that
  passes the guard, any events that settle nothing, and the call then rejecting or
  resolving with a status outside 200..299, the store is the store before the submit
  followed by exactly two entries, the user's message with the trimmed text and the bot's
  apology.
\<close>

theorem failure_keeps_echo:
  assumes "trim (inputMessage c) \<noteq> []" and "\<not> isLoading c" and "in_flight c = []"
    and "\<forall>e\<in>set es. \<not> is_settle e"
    and "outcome = Fetch_rejects \<or> (\<exists>res. outcome = Fetch_resolves res \<and> \<not> ok res)"
  shows "messages (step p (Settle 0 outcome clk') (run p es (step p (Click clk) c))) =
      messages c @ [userMessage p clk (inputMessage c), errorMessage p clk']
    \<and> msg_type (userMessage p clk (inputMessage c)) = User
    \<and> message (userMessage p clk (inputMessage c)) = JString (trim (inputMessage c))
    \<and> msg_type (errorMessage p clk') = Bot
    \<and> message (errorMessage p clk') = JString apologyText"
proof -
  let ?c1 = "handleSendMessage p clk c"
  let ?c2 = "run p es ?c1"
  note s = handleSendMessage_sends [OF assms(1,2), of p clk]
  have c2: "in_flight ?c2 = [inputMessage c]"
    "messages ?c2 = messages c @ [userMessage p clk (inputMessage c)]"
    using run_while_loading [OF assms(4) s(3), of p] s assms(3) by simp_all
  have k: "0 < length (in_flight ?c2)"
    using c2(1) by simp
  from assms(5) obtain e where e: "early_throw outcome = Some e"
    by auto
  have "messages (settle p 0 outcome clk' ?c2) =
      messages c @ [userMessage p clk (inputMessage c), errorMessage p clk']"
    using c2 by (simp add: settle_early_throw [OF k e])
  then show ?thesis
    by (simp add: message_fields)
qed

theorem failure_keeps_echo_witness:
  "trim (inputMessage composing) \<noteq> [] \<and> \<not> isLoading composing \<and> in_flight composing = []
   \<and> \<not> ok error_response
   \<and> messages (step example_props (Settle 0 (Fetch_resolves error_response) example_settle_clock)
        (run example_props [Toggle, Change (js ''next'')]
          (step example_props (Click example_submit_clock) composing))) =
     [userMessage example_props example_submit_clock (js ''hello''),
      errorMessage example_props example_settle_clock]"
  using failure_keeps_echo [of composing "[Toggle, Change (js ''next'')]"
      "Fetch_resolves error_response" example_props example_settle_clock example_submit_clock]
  by (simp add: composing_fields trim_hello js_hello_nonempty ok_examples)

text \<open>
  C10. The component whose conversation the host owns has no save callback among its
  properties (\<open>chatbot_props_ext\<close> has no such field). When a call in flight settles
  with a reply, the only call the component makes is one \<open>setConversation\<close> with an
  update function that returns the old entries followed by the completed entry; however
  the call settles, that single \<open>setConversation\<close> is its only call on the host; and no
  run of the component ever calls \<open>onSaveMessage\<close>.
\<close>

theorem ext_host_effects:
  assumes "j < length (in_flight d)"
  shows "(ok res \<and> json_result res = Body data \<and> data_answer data = Inr a \<longrightarrow>
        calls (settle_ext j (Fetch_resolves res) now d) =
          calls d @ [SetConversation (\<lambda>prev. prev @ [\<lparr>entry_user = in_flight d ! j,
            entry_bot = botResponse a, entry_time = now\<rparr>])])
    \<and> (\<exists>bot. filter to_host (calls (settle_ext j outcome now d)) =
          filter to_host (calls d) @
            [SetConversation (\<lambda>prev. prev @ [\<lparr>entry_user = in_flight d ! j, entry_bot = bot,
               entry_time = now\<rparr>])])
    \<and> filter is_save (calls (run_ext q ds (mount_ext conv))) = []"
  using settle_ext_to_host [OF assms, of outcome now]
  by (simp add: settle_ext_reply [OF assms] run_ext_no_save mount_calls)

theorem ext_host_effects_witness:
  "ok hi_response
   \<and> calls (settle_ext 0 (Fetch_resolves hi_response) 2000 pending_ext) =
       calls pending_ext @
         [SetConversation (\<lambda>prev. prev @ [\<lparr>entry_user = js ''hello'',
            entry_bot = JString (js ''X''), entry_time = 2000\<rparr>])]
   \<and> filter is_save (calls (run_ext example_props_ext
        [Change (js ''hello''), Click 1001, Settle 0 (Fetch_resolves hi_response) 2000]
        (mount_ext []))) = []"
  using ext_host_effects [of 0 pending_ext hi_response
      "JObject [(js ''answer'', JString (js ''X''))]" "Some (JString (js ''X''))" 2000
      "Fetch_resolves hi_response" example_props_ext
      "[Change (js ''hello''), Click 1001, Settle 0 (Fetch_resolves hi_response) 2000]" "[]"]
  by (simp add: pending_ext_fields ok_examples json_examples data_answer_hi)

end
